theory Spec2Isabelle
  imports Main "HOL-Library.Word"
begin

unbundle bit_operations_syntax

section \<open>Machine types\<close>

type_synonym u8 = "8 word"
type_synonym u16 = "16 word"
type_synonym u32 = "32 word"
type_synonym u64 = "64 word"

section \<open>TLV getters (uart\_tlv\_crc16.h)\<close>

text \<open>
  A buffer \<open>(p, n)\<close> of the source is a byte list \<open>p\<close> with \<open>n = length p\<close>.
  Each getter is the source's \<open>while (i + 2 <= n)\<close> loop over the index \<open>i\<close>;
  \<open>return false\<close> is \<open>None\<close>, \<open>return true\<close> with \<open>out\<close> set is \<open>Some out\<close>.
\<close>

function tlvGetU8_from :: "u8 list \<Rightarrow> u8 \<Rightarrow> nat \<Rightarrow> u8 option" where
  "tlvGetU8_from p tag i =
     (if i + 2 \<le> length p then
        (let t = p ! i; l = unat (p ! (i + 1)); j = i + 2 in
         if j + l > length p then None
         else if t = tag \<and> l = 1 then Some (p ! j)
         else tlvGetU8_from p tag (j + l))
      else None)"
  by pat_completeness auto
termination
  by (relation "measure (\<lambda>(p, tag, i). length p - i)") auto

definition tlvGetU8 :: "u8 list \<Rightarrow> u8 \<Rightarrow> u8 option" where
  "tlvGetU8 p tag = tlvGetU8_from p tag 0"

text \<open>The inner loop of \<open>tlvGetU64\<close>: \<open>v |= ((uint64_t)p[i + b]) << (8 * b)\<close> for \<open>b = 0..7\<close>.\<close>

function le_u64_loop :: "u8 list \<Rightarrow> nat \<Rightarrow> nat \<Rightarrow> u64 \<Rightarrow> u64" where
  "le_u64_loop p i b v =
     (if b < 8 then le_u64_loop p i (Suc b) (v OR push_bit (8 * b) (ucast (p ! (i + b)))) else v)"
  by pat_completeness auto
termination
  by (relation "measure (\<lambda>(p, i, b, v). 8 - b)") auto

function tlvGetU64_from :: "u8 list \<Rightarrow> u8 \<Rightarrow> nat \<Rightarrow> u64 option" where
  "tlvGetU64_from p tag i =
     (if i + 2 \<le> length p then
        (let t = p ! i; l = unat (p ! (i + 1)); j = i + 2 in
         if j + l > length p then None
         else if t = tag \<and> l = 8 then Some (le_u64_loop p j 0 0)
         else tlvGetU64_from p tag (j + l))
      else None)"
  by pat_completeness auto
termination
  by (relation "measure (\<lambda>(p, tag, i). length p - i)") auto

definition tlvGetU64 :: "u8 list \<Rightarrow> u8 \<Rightarrow> u64 option" where
  "tlvGetU64 p tag = tlvGetU64_from p tag 0"

text \<open>
  \<open>tlvGetStr\<close> appends the \<open>l\<close> value bytes to an empty \<open>String\<close> one \<open>char\<close> at a
  time; the resulting string is modelled as the list of those bytes.
\<close>

function str_loop :: "u8 list \<Rightarrow> nat \<Rightarrow> nat \<Rightarrow> nat \<Rightarrow> u8 list \<Rightarrow> u8 list" where
  "str_loop p i l b out =
     (if b < l then str_loop p i l (Suc b) (out @ [p ! (i + b)]) else out)"
  by pat_completeness auto
termination
  by (relation "measure (\<lambda>(p, i, l, b, out). l - b)") auto

function tlvGetStr_from :: "u8 list \<Rightarrow> u8 \<Rightarrow> nat \<Rightarrow> u8 list option" where
  "tlvGetStr_from p tag i =
     (if i + 2 \<le> length p then
        (let t = p ! i; l = unat (p ! (i + 1)); j = i + 2 in
         if j + l > length p then None
         else if t = tag then Some (str_loop p j l 0 [])
         else tlvGetStr_from p tag (j + l))
      else None)"
  by pat_completeness auto
termination
  by (relation "measure (\<lambda>(p, tag, i). length p - i)") auto

definition tlvGetStr :: "u8 list \<Rightarrow> u8 \<Rightarrow> u8 list option" where
  "tlvGetStr p tag = tlvGetStr_from p tag 0"

subsection \<open>The specification's reading of a TLV buffer\<close>

text \<open>
  Following the specification's words: a TLV buffer is a sequential concatenation of
  records (tag, length, value); a record whose declared length exceeds the remaining
  buffer is malformed and ends the sequence. \<open>tlv_records\<close> lists the well-formed
  records before the first malformed one (or before the end of the buffer).
\<close>

fun tlv_records :: "u8 list \<Rightarrow> (u8 \<times> u8 list) list" where
  "tlv_records (t # l # rest) =
     (if unat l > length rest then []
      else (t, take (unat l) rest) # tlv_records (drop (unat l) rest))"
| "tlv_records [t] = []"
| "tlv_records [] = []"

text \<open>The value of a little-endian 8-byte field.\<close>

definition u64_of_le :: "u8 list \<Rightarrow> u64" where
  "u64_of_le bs = foldr (\<lambda>b acc. ucast b OR push_bit 8 acc) bs 0"

definition spec_getU8 :: "u8 list \<Rightarrow> u8 \<Rightarrow> u8 option" where
  "spec_getU8 p tag =
     map_option (\<lambda>(t, v). hd v) (find (\<lambda>(t, v). t = tag \<and> length v = 1) (tlv_records p))"

definition spec_getU64 :: "u8 list \<Rightarrow> u8 \<Rightarrow> u64 option" where
  "spec_getU64 p tag =
     map_option (\<lambda>(t, v). u64_of_le v) (find (\<lambda>(t, v). t = tag \<and> length v = 8) (tlv_records p))"

definition spec_getStr :: "u8 list \<Rightarrow> u8 \<Rightarrow> u8 list option" where
  "spec_getStr p tag =
     map_option (\<lambda>(t, v). v) (find (\<lambda>(t, v). t = tag) (tlv_records p))"

text \<open>
  The byte image of a list of records, and what the specification calls a malformed
  remainder: fewer than two bytes, or a declared length larger than what follows.
\<close>

fun tlv_encode :: "(u8 \<times> u8 list) list \<Rightarrow> u8 list" where
  "tlv_encode [] = []"
| "tlv_encode ((t, v) # rs) = t # of_nat (length v) # v @ tlv_encode rs"

fun tlv_malformed :: "u8 list \<Rightarrow> bool" where
  "tlv_malformed (t # l # rest) = (unat l > length rest)"
| "tlv_malformed [t] = True"
| "tlv_malformed [] = True"

section \<open>Frame codec (uart\_tlv\_crc16.h)\<close>

subsection \<open>CRC-16/CCITT-FALSE\<close>

text \<open>
  One round of the source's inner loop \<open>for (int b = 0; b < 8; b++)\<close>, the eight
  rounds, and the outer loop over the data bytes, started from the \<open>crc\<close> argument.
\<close>

definition crc16_step :: "u16 \<Rightarrow> u16" where
  "crc16_step crc =
     (if crc AND 0x8000 \<noteq> 0 then push_bit 1 crc XOR 0x1021 else push_bit 1 crc)"

fun crc16_bits :: "nat \<Rightarrow> u16 \<Rightarrow> u16" where
  "crc16_bits 0 crc = crc"
| "crc16_bits (Suc k) crc = crc16_bits k (crc16_step crc)"

fun crc16_ccitt_false :: "u8 list \<Rightarrow> u16 \<Rightarrow> u16" where
  "crc16_ccitt_false [] crc = crc"
| "crc16_ccitt_false (d # ds) crc =
     crc16_ccitt_false ds (crc16_bits 8 (crc XOR push_bit 8 (ucast d)))"

subsection \<open>Frames and the parser\<close>

text \<open>
  \<open>UartFrame\<close>: the field \<open>length\<close> of the source is \<open>plength\<close> here. \<open>payload\<close> is the
  384-byte array; the frame's payload proper is its first \<open>plength\<close> bytes.
  The parser's \<open>_buf\<close>/\<open>_len\<close> pair is the list \<open>buf\<close> of the \<open>_len\<close> buffered bytes
  (the source never reads \<open>_buf\<close> at or beyond \<open>_len\<close>).
\<close>

record UartFrame =
  version :: u8
  msgType :: u8
  plength :: u16
  payload :: "u8 list"

record UartFrameParser =
  buf :: "u8 list"

definition UartFrameParser_new :: UartFrameParser where
  "UartFrameParser_new = \<lparr>buf = []\<rparr>"

text \<open>
  The alignment scan: \<open>drop = 1; for (i = 1; i + 1 < _len; i++) if (_buf[i] == 0xA5 &&
  _buf[i + 1] == 0x5A) { drop = i; break; }\<close>. \<open>find_drop b i\<close> is the value of \<open>drop\<close>
  when the loop is entered at index \<open>i\<close>.
\<close>

function find_drop :: "u8 list \<Rightarrow> nat \<Rightarrow> nat" where
  "find_drop b i =
     (if i + 1 < length b then
        (if b ! i = 0xA5 \<and> b ! (i + 1) = 0x5A then i else find_drop b (i + 1))
      else 1)"
  by pat_completeness auto
termination
  by (relation "measure (\<lambda>(b, i). length b - i)") auto

declare find_drop.simps [simp del]

lemma find_drop_pos: "0 < i \<Longrightarrow> 0 < find_drop b i"
  by (induction b i rule: find_drop.induct) (subst find_drop.simps, simp)

lemma find_drop_shrinks: "6 \<le> length b \<Longrightarrow> length b - find_drop b (Suc 0) < length b"
  using find_drop_pos [of "Suc 0" b] by simp

text \<open>
  The inner \<open>while (true)\<close> loop of \<open>feed\<close>, on the buffer and the caller's \<open>out\<close> frame.
  The result is \<open>(True, _, _)\<close> where the source returns \<open>true\<close> (a frame was delivered)
  and \<open>(False, _, _)\<close> where it breaks out of the loop to read the next byte.
\<close>

function parse_frames :: "u8 list \<Rightarrow> UartFrame \<Rightarrow> bool \<times> u8 list \<times> UartFrame" where
  "parse_frames b out =
     (if length b < 6 then (False, b, out)
      else if b ! 0 \<noteq> 0xA5 \<or> b ! 1 \<noteq> 0x5A then parse_frames (drop (find_drop b 1) b) out
      else
        (let ver = b ! 2;
             msg = b ! 3;
             plen = (ucast (b ! 4) OR push_bit 8 (ucast (b ! 5)) :: u16);
             total = 2 + 1 + 1 + 2 + unat plen + 2
         in if length b < total then (False, b, out)
            else
              (let rxCrc = (ucast (b ! (total - 2)) OR push_bit 8 (ucast (b ! (total - 1))) :: u16);
                   calc = crc16_ccitt_false (take (1 + 1 + 2 + unat plen) (drop 2 b)) 0xFFFF
               in if rxCrc \<noteq> calc then parse_frames (drop 2 b) out
                  else
                    (let out1 = out\<lparr>version := ver, msgType := msg, plength := plen\<rparr>
                     in if unat plen > 384 then (False, drop total b, out1)
                        else
                          (True, drop total b,
                           out1\<lparr>payload :=
                             take (unat plen) (drop 6 b) @ drop (unat plen) (payload out1)\<rparr>)))))"
  by pat_completeness auto
termination
  by (relation "measure (\<lambda>(b, out). length b)") (auto simp: find_drop_shrinks)

declare parse_frames.simps [simp del]

text \<open>
  \<open>feed\<close>: the stream is the list of bytes still to be read (\<open>available()\<close> is
  non-emptiness, \<open>read()\<close> takes the head). The result is the returned flag, the parser,
  the unread rest of the stream and \<open>out\<close>.
\<close>

fun feed :: "UartFrameParser \<Rightarrow> u8 list \<Rightarrow> UartFrame \<Rightarrow>
    bool \<times> UartFrameParser \<times> u8 list \<times> UartFrame" where
  "feed p [] out = (False, p, [], out)"
| "feed p (c # s) out =
     (let b0 = (if length (buf p) \<ge> 512 then [] else buf p);
          b1 = b0 @ [c]
      in case parse_frames b1 out of
           (True, b2, out2) \<Rightarrow> (True, p\<lparr>buf := b2\<rparr>, s, out2)
         | (False, b2, out2) \<Rightarrow> feed (p\<lparr>buf := b2\<rparr>) s out2)"

subsection \<open>The writer\<close>

text \<open>
  \<open>uartWriteFrame\<close>: the stream is the list of bytes written so far; \<open>payload\<close> is the
  pointer (\<open>None\<close> for a null pointer) to at least \<open>len\<close> bytes.
\<close>

definition uartWriteFrame ::
    "u8 list \<Rightarrow> u8 \<Rightarrow> u8 list option \<Rightarrow> u16 \<Rightarrow> bool \<times> u8 list" where
  "uartWriteFrame s msgT pl len =
     (if len > 384 then (False, s)
      else
        (let hdr = [0xA5, 0x5A, 1, msgT, ucast (len AND 0xFF), ucast (drop_bit 8 len AND 0xFF)];
             crc0 = crc16_ccitt_false (take 4 (drop 2 hdr)) 0xFFFF;
             has = (pl \<noteq> None \<and> len > 0);
             bytes = (case pl of None \<Rightarrow> [] | Some d \<Rightarrow> take (unat len) d);
             crc = (if has then crc16_ccitt_false bytes crc0 else crc0);
             s1 = s @ hdr;
             s2 = (if has then s1 @ bytes else s1);
             c = [ucast (crc AND 0xFF), ucast (drop_bit 8 crc AND 0xFF)]
         in (True, s2 @ c)))"

text \<open>
  The wire image of a frame as the specification lays it out: preamble, version,
  message type, little-endian length, payload, little-endian CRC16 over
  version..payload.
\<close>

definition frame_body :: "u8 \<Rightarrow> u8 \<Rightarrow> u8 list \<Rightarrow> u8 list" where
  "frame_body v t pl =
     (let n = (of_nat (length pl) :: u16) in [v, t, ucast n, ucast (drop_bit 8 n)] @ pl)"

definition frame_crc :: "u8 \<Rightarrow> u8 \<Rightarrow> u8 list \<Rightarrow> u16" where
  "frame_crc v t pl = crc16_ccitt_false (frame_body v t pl) 0xFFFF"

definition frame_bytes :: "u8 \<Rightarrow> u8 \<Rightarrow> u8 list \<Rightarrow> u8 list" where
  "frame_bytes v t pl =
     [0xA5, 0x5A] @ frame_body v t pl @
     [ucast (frame_crc v t pl), ucast (drop_bit 8 (frame_crc v t pl))]"

text \<open>
  Whether the preamble pair \<open>0xA5, 0x5A\<close> occurs anywhere in a byte sequence (at two
  adjacent positions).
\<close>

fun has_preamble :: "u8 list \<Rightarrow> bool" where
  "has_preamble (a # b # r) = ((a = 0xA5 \<and> b = 0x5A) \<or> has_preamble (b # r))"
| "has_preamble [a] = False"
| "has_preamble [] = False"

text \<open>A default-constructed \<open>UartFrame\<close>, with the payload array zeroed.\<close>

definition UartFrame_new :: UartFrame where
  "UartFrame_new = \<lparr>version = 1, msgType = 0, plength = 0, payload = replicate 384 0\<rparr>"

text \<open>The payload of a frame as its consumer reads it: the first \<open>length\<close> bytes.\<close>

definition frame_payload :: "UartFrame \<Rightarrow> u8 list" where
  "frame_payload f = take (unat (plength f)) (payload f)"

section \<open>Line protocol (uart\_protocol.cpp)\<close>

text \<open>
  \<open>UartProtocol\<close>: \<open>lineBuf\<close> is the list of the \<open>_lineLen\<close> buffered characters of
  \<open>_lineBuf\<close>. \<open>UartProtocol_tick\<close> reads the stream (the list of characters still to be
  read) to its end; its result is the protocol state and the C strings that were handed
  to \<open>handleLine\<close>, in order. A C string ends at its first NUL character.
\<close>

record UartProtocol =
  lineBuf :: string

definition kMaxLine :: nat where
  "kMaxLine = 512"

definition c_str :: "string \<Rightarrow> string" where
  "c_str cs = takeWhile (\<lambda>c. c \<noteq> CHR 0x00) cs"

fun UartProtocol_tick :: "UartProtocol \<Rightarrow> string \<Rightarrow> UartProtocol \<times> string list" where
  "UartProtocol_tick u [] = (u, [])"
| "UartProtocol_tick u (c # s) =
     (if c = CHR 0x0D then UartProtocol_tick u s
      else if c = CHR 0x0A then
        (let handled = (if length (lineBuf u) > 0 then [c_str (lineBuf u)] else []);
             (u', more) = UartProtocol_tick (u\<lparr>lineBuf := []\<rparr>) s
         in (u', handled @ more))
      else if length (lineBuf u) < kMaxLine - 1 then
        UartProtocol_tick (u\<lparr>lineBuf := lineBuf u @ [c]\<rparr>) s
      else UartProtocol_tick (u\<lparr>lineBuf := []\<rparr>) s)"

text \<open>
  The JSON parser (ArduinoJson) is an external library. \<open>handleLine\<close> takes it as the
  parameter \<open>deserializeJson\<close>, which yields \<open>None\<close> on a parse error and otherwise the
  document's recognised fields: \<open>doc_cmd\<close> and \<open>doc_cmdId\<close> are what \<open>doc["cmd"]\<close> and
  \<open>doc["cmdId"]\<close> hold as strings (\<open>None\<close> when absent or not a string), \<open>doc_args\<close>
  and \<open>doc_params\<close> are \<open>None\<close> when \<open>isNull()\<close>. Of an argument object only the three
  members the commands read are kept, each as what \<open>args[key] | default\<close> finds
  (\<open>None\<close> when absent or of the wrong type, so that the default applies).
  The result of \<open>handleLine\<close> is the call of the registered command handler it makes, if
  any.
\<close>

record CmdArgs =
  arg_slot :: "int option"
  arg_pin :: "string option"
  arg_uidHex :: "string option"

definition no_args :: CmdArgs where
  "no_args = \<lparr>arg_slot = None, arg_pin = None, arg_uidHex = None\<rparr>"

record JsonDoc =
  doc_cmd :: "string option"
  doc_cmdId :: "string option"
  doc_args :: "CmdArgs option"
  doc_params :: "CmdArgs option"

definition handleLine ::
    "(string \<Rightarrow> JsonDoc option) \<Rightarrow> string \<Rightarrow> (string \<times> string \<times> CmdArgs) option" where
  "handleLine deserializeJson line =
     (case deserializeJson line of
        None \<Rightarrow> None
      | Some doc \<Rightarrow>
          (case doc_cmd doc of
             None \<Rightarrow> None
           | Some cmd \<Rightarrow>
               (let cmdId = (case doc_cmdId doc of None \<Rightarrow> [] | Some i \<Rightarrow> i);
                    args = (case doc_args doc of
                              None \<Rightarrow> (case doc_params doc of None \<Rightarrow> no_args | Some a \<Rightarrow> a)
                            | Some a \<Rightarrow> a)
                in Some (cmd, cmdId, args))))"

section \<open>Credential store (store\_credentials.cpp)\<close>

subsection \<open>The image and its CRC32\<close>

text \<open>
  \<open>PinSlot\<close>, \<open>RfidSlot\<close> and \<open>StoreV1\<close> are the structs of the source; the fields
  \<open>valid\<close> and \<open>len\<close> carry the prefix of their struct, \<open>version\<close> is \<open>sversion\<close> and
  \<open>crc32\<close> is \<open>crc32_f\<close>. \<open>pin\<close> is the array \<open>char[9]\<close>, \<open>uid\<close> the array
  \<open>uint8_t[10]\<close>, \<open>pins\<close> and \<open>rfids\<close> the arrays of 10 slots. \<open>pad\<close> is the 3 bytes of
  padding the compiler inserts before the 4-aligned \<open>crc32\<close> (offset 249 to 251), which
  the source's CRC over \<open>sizeof(StoreV1) = 256\<close> raw bytes covers. \<open>image_bytes\<close> is the
  struct as those raw bytes (little-endian, as on the ESP8266).
\<close>

record PinSlot =
  p_valid :: u8
  p_len :: u8
  pin :: string

record RfidSlot =
  r_valid :: u8
  r_len :: u8
  uid :: "u8 list"

record StoreV1 =
  magic :: u32
  sversion :: u16
  reserved :: u16
  pins :: "PinSlot list"
  rfids :: "RfidSlot list"
  master :: PinSlot
  pad :: "u8 list"
  crc32_f :: u32

definition kMagic :: u32 where
  "kMagic = 0x534C4B31"

definition kVersion :: u16 where
  "kVersion = 1"

definition kMaxPinLen :: nat where
  "kMaxPinLen = 8"

definition le16 :: "u16 \<Rightarrow> u8 list" where
  "le16 w = [ucast w, ucast (drop_bit 8 w)]"

definition le32 :: "u32 \<Rightarrow> u8 list" where
  "le32 w = [ucast w, ucast (drop_bit 8 w), ucast (drop_bit 16 w), ucast (drop_bit 24 w)]"

definition PinSlot_bytes :: "PinSlot \<Rightarrow> u8 list" where
  "PinSlot_bytes p = [p_valid p, p_len p] @ map of_char (pin p)"

definition RfidSlot_bytes :: "RfidSlot \<Rightarrow> u8 list" where
  "RfidSlot_bytes r = [r_valid r, r_len r] @ uid r"

definition image_bytes :: "StoreV1 \<Rightarrow> u8 list" where
  "image_bytes d =
     le32 (magic d) @ le16 (sversion d) @ le16 (reserved d) @
     concat (map PinSlot_bytes (pins d)) @ concat (map RfidSlot_bytes (rfids d)) @
     PinSlot_bytes (master d) @ pad d @ le32 (crc32_f d)"

text \<open>
  \<open>crc32\<close>: one round \<open>mask = -(c & 1); c = (c >> 1) ^ (0xEDB88320 & mask)\<close>, eight rounds
  per byte after \<open>c ^= buf[i]\<close>, started from \<open>0xFFFFFFFF\<close> and complemented at the end.
\<close>

definition crc32_step :: "u32 \<Rightarrow> u32" where
  "crc32_step c = (let mask = - (c AND 1) in drop_bit 1 c XOR (0xEDB88320 AND mask))"

fun crc32_bits :: "nat \<Rightarrow> u32 \<Rightarrow> u32" where
  "crc32_bits 0 c = c"
| "crc32_bits (Suc k) c = crc32_bits k (crc32_step c)"

fun crc32_update :: "u8 list \<Rightarrow> u32 \<Rightarrow> u32" where
  "crc32_update [] c = c"
| "crc32_update (b # bs) c = crc32_update bs (crc32_bits 8 (c XOR ucast b))"

definition crc32 :: "u8 list \<Rightarrow> u32" where
  "crc32 bs = NOT (crc32_update bs 0xFFFFFFFF)"

subsection \<open>The store and its persistence\<close>

text \<open>
  The EEPROM library is an external collaborator. \<open>EEPROM.get(0, _data)\<close> and
  \<open>EEPROM.put(0, _data)\<close> copy the 256 bytes of the struct from and to offset 0, so the
  EEPROM is modelled by the struct value those bytes hold (\<open>contents\<close>);
  \<open>commit_ok\<close> is what \<open>EEPROM.commit()\<close> returns. Functions that the source declares
  \<open>bool\<close> return the flag together with the store. \<open>beyond\<close> is the memory that
  follows \<open>_data\<close> (the member \<open>_eepromSize\<close> and whatever lies behind the object); only
  an out-of-range \<open>memcmp\<close> in \<open>validateRfid\<close> ever reads it.
\<close>

record EEPROMClass =
  contents :: StoreV1
  commit_ok :: bool

record CredentialsStore =
  data :: StoreV1
  eeprom :: EEPROMClass
  beyond :: "u8 list"

definition zero_PinSlot :: PinSlot where
  "zero_PinSlot = \<lparr>p_valid = 0, p_len = 0, pin = replicate 9 (CHR 0x00)\<rparr>"

definition zero_RfidSlot :: RfidSlot where
  "zero_RfidSlot = \<lparr>r_valid = 0, r_len = 0, uid = replicate 10 0\<rparr>"

definition clearAll :: "CredentialsStore \<Rightarrow> CredentialsStore" where
  "clearAll st =
     st\<lparr>data := \<lparr>magic = kMagic, sversion = kVersion, reserved = 0,
                  pins = replicate 10 zero_PinSlot, rfids = replicate 10 zero_RfidSlot,
                  master = zero_PinSlot, pad = replicate 3 0, crc32_f = 0\<rparr>\<rparr>"

definition save :: "CredentialsStore \<Rightarrow> bool \<times> CredentialsStore" where
  "save st =
     (let tmp = (data st)\<lparr>crc32_f := 0\<rparr>;
          c = crc32 (image_bytes tmp);
          d = (data st)\<lparr>crc32_f := c\<rparr>
      in (commit_ok (eeprom st), st\<lparr>data := d, eeprom := (eeprom st)\<lparr>contents := d\<rparr>\<rparr>))"

definition load :: "CredentialsStore \<Rightarrow> bool \<times> CredentialsStore" where
  "load st =
     (let st1 = st\<lparr>data := contents (eeprom st)\<rparr> in
      if magic (data st1) \<noteq> kMagic \<or> sversion (data st1) \<noteq> kVersion then
        (False, snd (save (clearAll st1)))
      else
        (let tmp = data st1;
             expected = crc32_f tmp;
             actual = crc32 (image_bytes (tmp\<lparr>crc32_f := 0\<rparr>))
         in if actual \<noteq> expected then (False, snd (save (clearAll st1)))
            else (True, st1)))"

subsection \<open>Setters and validation\<close>

text \<open>
  A \<open>const char *\<close> argument is the string it points to (the callers in scope never pass
  a null pointer). Characters are compared by their code; \<open>'0'\<close> is 48 and \<open>'9'\<close> is 57.
  \<open>copy_digits\<close> is the loop of \<open>normalizePin\<close>: it fails at the first character that is
  not a decimal digit, otherwise it yields the copy written to \<open>out\<close>.
\<close>

definition isValidSlot :: "u8 \<Rightarrow> bool" where
  "isValidSlot slot = (slot < 10)"

definition is_digit :: "char \<Rightarrow> bool" where
  "is_digit c = (\<not> ((of_char c :: nat) < 48 \<or> (of_char c :: nat) > 57))"

fun copy_digits :: "string \<Rightarrow> string option" where
  "copy_digits [] = Some []"
| "copy_digits (c # cs) =
     (if \<not> is_digit c then None else map_option ((#) c) (copy_digits cs))"

definition normalizePin :: "string \<Rightarrow> (string \<times> u8) option" where
  "normalizePin inp =
     (let n = length inp in
      if n = 0 \<or> n > kMaxPinLen then None
      else (case copy_digits inp of None \<Rightarrow> None | Some out \<Rightarrow> Some (out, of_nat n)))"

definition filled_PinSlot :: "string \<Rightarrow> u8 \<Rightarrow> PinSlot" where
  "filled_PinSlot b l =
     \<lparr>p_valid = 1, p_len = l, pin = take (unat l) b @ replicate (9 - unat l) (CHR 0x00)\<rparr>"

definition setPin :: "u8 \<Rightarrow> string \<Rightarrow> CredentialsStore \<Rightarrow> bool \<times> CredentialsStore" where
  "setPin slot p st =
     (if \<not> isValidSlot slot then (False, st)
      else (case normalizePin p of
              None \<Rightarrow> (False, st)
            | Some (b, l) \<Rightarrow>
                save (st\<lparr>data := (data st)\<lparr>pins :=
                  (pins (data st))[unat slot := filled_PinSlot b l]\<rparr>\<rparr>)))"

definition deletePin :: "u8 \<Rightarrow> CredentialsStore \<Rightarrow> bool \<times> CredentialsStore" where
  "deletePin slot st =
     (if \<not> isValidSlot slot then (False, st)
      else save (st\<lparr>data := (data st)\<lparr>pins := (pins (data st))[unat slot := zero_PinSlot]\<rparr>\<rparr>))"

definition setMaster :: "string \<Rightarrow> CredentialsStore \<Rightarrow> bool \<times> CredentialsStore" where
  "setMaster p st =
     (if length p = 0 then save (st\<lparr>data := (data st)\<lparr>master := zero_PinSlot\<rparr>\<rparr>)
      else (case normalizePin p of
              None \<Rightarrow> (False, st)
            | Some (b, l) \<Rightarrow> save (st\<lparr>data := (data st)\<lparr>master := filled_PinSlot b l\<rparr>\<rparr>)))"

text \<open>A \<open>(uid, uidLen)\<close> pair is the list of the \<open>uidLen\<close> bytes; a null pointer is the empty list.\<close>

definition setRfid :: "u8 \<Rightarrow> u8 list \<Rightarrow> CredentialsStore \<Rightarrow> bool \<times> CredentialsStore" where
  "setRfid slot u st =
     (if \<not> isValidSlot slot then (False, st)
      else if length u = 0 \<or> length u > 10 then (False, st)
      else save (st\<lparr>data := (data st)\<lparr>rfids := (rfids (data st))[unat slot :=
             \<lparr>r_valid = 1, r_len = of_nat (length u),
              uid = u @ replicate (10 - length u) 0\<rparr>]\<rparr>\<rparr>))"

definition deleteRfid :: "u8 \<Rightarrow> CredentialsStore \<Rightarrow> bool \<times> CredentialsStore" where
  "deleteRfid slot st =
     (if \<not> isValidSlot slot then (False, st)
      else save (st\<lparr>data := (data st)\<lparr>rfids := (rfids (data st))[unat slot := zero_RfidSlot]\<rparr>\<rparr>))"

text \<open>
  \<open>memcmp(a, b, n) == 0\<close> is equality of the first \<open>n\<close> bytes at \<open>a\<close> and at \<open>b\<close>. The
  loops over the 10 slots return the index of the first match. In \<open>validatePin\<close> the
  length is at most 8, inside the array \<open>pin\<close>.
\<close>

function validatePin_loop :: "PinSlot list \<Rightarrow> string \<Rightarrow> u8 \<Rightarrow> nat \<Rightarrow> nat option" where
  "validatePin_loop ps b l i =
     (if i < 10 then
        (let p = ps ! i in
         if p_valid p = 0 then validatePin_loop ps b l (i + 1)
         else if p_len p = l \<and> take (unat l) (pin p) = take (unat l) b then Some i
         else validatePin_loop ps b l (i + 1))
      else None)"
  by pat_completeness auto
termination
  by (relation "measure (\<lambda>(ps, b, l, i). 10 - i)") auto

declare validatePin_loop.simps [simp del]

text \<open>The result of \<open>validatePin\<close> is the flag, \<open>*matchedSlot\<close> and \<open>*isMaster\<close>.\<close>

definition validatePin :: "string \<Rightarrow> CredentialsStore \<Rightarrow> bool \<times> int \<times> bool" where
  "validatePin p st =
     (case normalizePin p of
        None \<Rightarrow> (False, - 1, False)
      | Some (b, l) \<Rightarrow>
          (let m = master (data st) in
           if p_valid m \<noteq> 0 \<and> p_len m = l \<and> take (unat l) (pin m) = take (unat l) b
           then (True, - 1, True)
           else (case validatePin_loop (pins (data st)) b l 0 of
                   Some i \<Rightarrow> (True, int i, False)
                 | None \<Rightarrow> (False, - 1, False))))"

text \<open>
  In \<open>validateRfid\<close>, \<open>memcmp(r.uid, uid, uidLen)\<close> reads \<open>uidLen\<close> bytes starting at
  \<open>r.uid\<close>, and \<open>uidLen\<close> may be up to 255. Up to 10 these are the first elements of the
  array \<open>uid\<close>. Beyond 10 (where only a slot whose stored \<open>len\<close> exceeds 10 is compared
  at all, which no setter writes) the read runs past the array through the memory that
  follows it: \<open>uid_memory\<close> takes the bytes from the struct's image at the offset of
  \<open>rfids[i].uid\<close>, continued by \<open>beyond\<close>.
\<close>

definition uid_offset :: "nat \<Rightarrow> nat" where
  "uid_offset i = 4 + 2 + 2 + 10 * 11 + i * 12 + 2"

definition uid_memory :: "CredentialsStore \<Rightarrow> nat \<Rightarrow> nat \<Rightarrow> u8 list" where
  "uid_memory st i n =
     (if n \<le> 10 then take n (uid (rfids (data st) ! i))
      else take n (drop (uid_offset i) (image_bytes (data st) @ beyond st)))"

function validateRfid_loop :: "CredentialsStore \<Rightarrow> u8 list \<Rightarrow> nat \<Rightarrow> nat option" where
  "validateRfid_loop st u i =
     (if i < 10 then
        (let r = rfids (data st) ! i in
         if r_valid r = 0 \<or> r_len r \<noteq> of_nat (length u) then validateRfid_loop st u (i + 1)
         else if uid_memory st i (length u) = take (length u) u then Some i
         else validateRfid_loop st u (i + 1))
      else None)"
  by pat_completeness auto
termination
  by (relation "measure (\<lambda>(st, u, i). 10 - i)") auto

declare validateRfid_loop.simps [simp del]

definition validateRfid :: "u8 list \<Rightarrow> CredentialsStore \<Rightarrow> bool \<times> int" where
  "validateRfid u st =
     (if length u = 0 then (False, - 1)
      else (case validateRfid_loop st u 0 of
              Some i \<Rightarrow> (True, int i)
            | None \<Rightarrow> (False, - 1)))"

section \<open>Access-control state machine (lock\_logic.cpp)\<close>

text \<open>
  \<open>LockLogic\<close> holds the members of the class. \<open>store\<close> is the object behind the
  pointer \<open>_store\<close> (\<open>None\<close> for a null pointer); \<open>display\<close>, \<open>buzzer\<close> and \<open>uart\<close> say
  whether the respective pointer is non-null. \<open>pinBuf\<close> is the list of the \<open>_pinLen\<close>
  characters of \<open>_pinBuf\<close>. Every handler takes the value \<open>now\<close> that \<open>millis()\<close>
  returns while it runs and yields the new state and the outputs in the order they are
  produced: texts set on the display, buzzer patterns and the messages sent over the
  line protocol.
\<close>

datatype LockState = LOCKED | UNLOCKED

record StateMsg =
  st_lock :: string
  st_method :: string
  st_success :: bool
  st_atMs :: u32
  st_lockoutRemainMs :: "u32 option"

datatype effect =
    SetText string
  | PlaySuccess
  | PlayFail
  | SendCmdResult string bool "string option"
  | SendEvent string string bool "int option" "string option"
  | SendState StateMsg

record LockLogic =
  store :: "CredentialsStore option"
  display :: bool
  buzzer :: bool
  uart :: bool
  lockState :: LockState
  unlockUntilMs :: u32
  pinBuf :: string
  lastInputMs :: u32
  failCount :: u8
  lockoutUntilMs :: u32
  lastMethod :: string
  lastSuccess :: bool
  lastActionAtMs :: u32

definition kPinInputTimeoutMs :: u32 where
  "kPinInputTimeoutMs = 6000"

definition kUnlockHoldMs :: u32 where
  "kUnlockHoldMs = 5000"

definition kMaxFailsBeforeLockout :: u8 where
  "kMaxFailsBeforeLockout = 5"

definition kLockoutDurationMs :: u32 where
  "kLockoutDurationMs = 30000"

definition isLockoutActive :: "u32 \<Rightarrow> LockLogic \<Rightarrow> bool" where
  "isLockoutActive now s = (lockoutUntilMs s \<noteq> 0 \<and> sint (now - lockoutUntilMs s) < 0)"

definition setDisplayText :: "LockLogic \<Rightarrow> string \<Rightarrow> effect list" where
  "setDisplayText s t = (if display s then [SetText t] else [])"

definition clearPinEntry :: "LockLogic \<Rightarrow> LockLogic" where
  "clearPinEntry s = s\<lparr>pinBuf := []\<rparr>"

definition sendState :: "u32 \<Rightarrow> LockLogic \<Rightarrow> effect list" where
  "sendState now s =
     (if \<not> uart s then []
      else [SendState
             \<lparr>st_lock = (if lockState s = LOCKED then ''LOCKED'' else ''UNLOCKED''),
              st_method = lastMethod s,
              st_success = lastSuccess s,
              st_atMs = lastActionAtMs s,
              st_lockoutRemainMs =
                (if isLockoutActive now s
                 then Some (if lockoutUntilMs s > now then lockoutUntilMs s - now else 0)
                 else None)\<rparr>])"

definition sendUnlockEvent ::
    "LockLogic \<Rightarrow> string \<Rightarrow> bool \<Rightarrow> int \<Rightarrow> string option \<Rightarrow> effect list" where
  "sendUnlockEvent s method success slot uidHex =
     (if \<not> uart s then []
      else [SendEvent ''lock.unlock'' method success
              (if slot \<ge> 0 then Some slot else None)
              (case uidHex of None \<Rightarrow> None | Some h \<Rightarrow> if h \<noteq> [] then Some h else None)])"

definition unlockSuccess ::
    "u32 \<Rightarrow> string \<Rightarrow> int \<Rightarrow> string option \<Rightarrow> LockLogic \<Rightarrow> LockLogic \<times> effect list" where
  "unlockSuccess now method slot uidHex s =
     (let s1 = s\<lparr>failCount := 0, lockState := UNLOCKED, unlockUntilMs := now + kUnlockHoldMs,
                 lastMethod := take 7 method, lastSuccess := True, lastActionAtMs := now\<rparr>
      in (s1, setDisplayText s1 ''OPEN'' @ (if buzzer s1 then [PlaySuccess] else []) @
              sendUnlockEvent s1 method True slot uidHex @ sendState now s1))"

definition unlockFail ::
    "u32 \<Rightarrow> string \<Rightarrow> string option \<Rightarrow> LockLogic \<Rightarrow> LockLogic \<times> effect list" where
  "unlockFail now method uidHex s =
     (let s1 = s\<lparr>failCount := failCount s + 1, lastMethod := take 7 method,
                 lastSuccess := False, lastActionAtMs := now\<rparr>;
          s2 = (if failCount s1 \<ge> kMaxFailsBeforeLockout
                then s1\<lparr>failCount := 0, lockoutUntilMs := now + kLockoutDurationMs\<rparr>
                else s1);
          shown = (if failCount s1 \<ge> kMaxFailsBeforeLockout
                   then setDisplayText s1 ''LOCK'' else setDisplayText s1 ''FAIL'')
      in (s2, shown @ (if buzzer s2 then [PlayFail] else []) @
              sendUnlockEvent s2 method False (- 1) uidHex @ sendState now s2))"

definition attemptPin :: "u32 \<Rightarrow> LockLogic \<Rightarrow> LockLogic \<times> effect list" where
  "attemptPin now s =
     (if length (pinBuf s) = 0 then (s, [])
      else
        (let (ok, slot, isMaster) =
               (case store s of
                  None \<Rightarrow> (False, - 1, False)
                | Some st \<Rightarrow> validatePin (pinBuf s) st);
             s1 = clearPinEntry s
         in if ok then unlockSuccess now ''PIN'' (if isMaster then - 1 else slot) None s1
            else unlockFail now ''PIN'' None s1))"

definition onKey :: "u32 \<Rightarrow> char \<Rightarrow> LockLogic \<Rightarrow> LockLogic \<times> effect list" where
  "onKey now key s =
     (if key = CHR 0x00 then (s, [])
      else if isLockoutActive now s then (s, [])
      else if is_digit key then
        (if length (pinBuf s) < kMaxPinLen
         then (s\<lparr>pinBuf := pinBuf s @ [key], lastInputMs := now\<rparr>, setDisplayText s ''****'')
         else (s, []))
      else if key = CHR ''*'' then (clearPinEntry s, setDisplayText s ''----'')
      else if key = CHR ''#'' then attemptPin now s
      else (s, []))"

text \<open>
  \<open>RfidRc522::uidToHex\<close> with its output buffer of \<open>outLen\<close> characters: the loop stops
  early when two more digits and the terminator would not fit.
\<close>

definition hex_char :: "u8 \<Rightarrow> char" where
  "hex_char n = ''0123456789ABCDEF'' ! unat (n AND 0x0F)"

function uidToHex_loop :: "u8 list \<Rightarrow> nat \<Rightarrow> nat \<Rightarrow> string \<Rightarrow> string" where
  "uidToHex_loop u outLen i out =
     (if i < length u then
        (if length out + 2 \<ge> outLen then out
         else uidToHex_loop u outLen (i + 1)
                (out @ [hex_char (drop_bit 4 (u ! i)), hex_char (u ! i)]))
      else out)"
  by pat_completeness auto
termination
  by (relation "measure (\<lambda>(u, outLen, i, out). length u - i)") auto

declare uidToHex_loop.simps [simp del]

definition uidToHex :: "u8 list \<Rightarrow> nat \<Rightarrow> string" where
  "uidToHex u outLen = (if outLen = 0 then [] else uidToHex_loop u outLen 0 [])"

definition onRfidUid :: "u32 \<Rightarrow> u8 list \<Rightarrow> LockLogic \<Rightarrow> LockLogic \<times> effect list" where
  "onRfidUid now u s =
     (if length u = 0 then (s, [])
      else if isLockoutActive now s then (s, [])
      else
        (let (ok, slot) = (case store s of None \<Rightarrow> (False, - 1) | Some st \<Rightarrow> validateRfid u st);
             uidHex = uidToHex u 24
         in if ok then unlockSuccess now ''RFID'' slot (Some uidHex) s
            else unlockFail now ''RFID'' (Some uidHex) s))"

definition tick :: "u32 \<Rightarrow> LockLogic \<Rightarrow> LockLogic \<times> effect list" where
  "tick now s =
     (let timeout = (length (pinBuf s) > 0 \<and> sint (now - lastInputMs s) > sint kPinInputTimeoutMs);
          s1 = (if timeout then clearPinEntry s else s);
          o1 = (if timeout \<and> \<not> isLockoutActive now s1 \<and> lockState s1 = LOCKED
                then setDisplayText s1 ''----'' else []);
          o2 = (if isLockoutActive now s1 then setDisplayText s1 ''LOCK'' else []);
          relock = (lockState s1 = UNLOCKED \<and> sint (now - unlockUntilMs s1) > 0);
          s2 = (if relock then s1\<lparr>lockState := LOCKED\<rparr> else s1);
          o3 = (if relock then setDisplayText s2 ''----'' @ sendState now s2 else [])
      in (s2, o1 @ o2 @ o3))"

subsection \<open>Administrative commands\<close>

text \<open>
  \<open>ok = _store && _store->op(...) && _store->save()\<close>: the operation on the store, then
  \<open>save()\<close> once more if it succeeded. The result is \<open>ok\<close> and the state.
\<close>

definition store_op ::
    "(CredentialsStore \<Rightarrow> bool \<times> CredentialsStore) \<Rightarrow> LockLogic \<Rightarrow> bool \<times> LockLogic" where
  "store_op f s =
     (case store s of
        None \<Rightarrow> (False, s)
      | Some st \<Rightarrow>
          (let (r1, st1) = f st in
           if r1 then (let (r2, st2) = save st1 in (r2, s\<lparr>store := Some st2\<rparr>))
           else (False, s\<lparr>store := Some st1\<rparr>)))"

text \<open>
  The hexadecimal parse of \<open>lock.add_rfid\<close>. \<open>strtol16_pair a b\<close> models the C library's
  \<open>strtol(tmp, &end, 16)\<close> on the string of the two characters \<open>a\<close>, \<open>b\<close> together with the
  test \<open>end && *end == '\0'\<close>: the value if the whole string was consumed, else \<open>None\<close>.
  \<open>strtol\<close> skips leading white space and accepts a sign, so besides two hexadecimal
  digits a space or a sign followed by one digit is consumed as a whole.
  \<open>parse_uid_loop\<close> is the loop over the pairs; the empty list stands for \<open>uidLen = 0\<close>.
\<close>

definition hex_val :: "char \<Rightarrow> int option" where
  "hex_val c =
     (let n = (of_char c :: nat) in
      if 48 \<le> n \<and> n \<le> 57 then Some (int n - 48)
      else if 65 \<le> n \<and> n \<le> 70 then Some (int n - 55)
      else if 97 \<le> n \<and> n \<le> 102 then Some (int n - 87)
      else None)"

definition is_space :: "char \<Rightarrow> bool" where
  "is_space c = (let n = (of_char c :: nat) in n = 32 \<or> (9 \<le> n \<and> n \<le> 13))"

definition strtol16_pair :: "char \<Rightarrow> char \<Rightarrow> int option" where
  "strtol16_pair a b =
     (case hex_val b of
        None \<Rightarrow> None
      | Some y \<Rightarrow>
          (case hex_val a of
             Some x \<Rightarrow> Some (16 * x + y)
           | None \<Rightarrow>
               if is_space a \<or> a = CHR ''+'' then Some y
               else if a = CHR ''-'' then Some (- y)
               else None))"

function parse_uid_loop :: "string \<Rightarrow> nat \<Rightarrow> u8 list \<Rightarrow> u8 list" where
  "parse_uid_loop h i acc =
     (if i < length h \<and> length acc < 10 then
        (case strtol16_pair (h ! i) (h ! (i + 1)) of
           None \<Rightarrow> []
         | Some v \<Rightarrow>
             if v < 0 \<or> v > 255 then []
             else parse_uid_loop h (i + 2) (acc @ [of_int v]))
      else acc)"
  by pat_completeness auto
termination
  by (relation "measure (\<lambda>(h, i, acc). length h - i)") auto

declare parse_uid_loop.simps [simp del]

text \<open>
  The chain of \<open>strcmp\<close> branches of \<open>onCommand\<close>, one definition per branch and
  \<open>run_command\<close> for the chain: the result is \<open>ok\<close>, \<open>err\<close> (\<open>None\<close> for the null
  pointer) and the state.
\<close>

definition get_slot :: "CmdArgs \<Rightarrow> int" where
  "get_slot args = (case arg_slot args of None \<Rightarrow> - 1 | Some n \<Rightarrow> n)"

definition get_pin :: "CmdArgs \<Rightarrow> string" where
  "get_pin args = (case arg_pin args of None \<Rightarrow> [] | Some p \<Rightarrow> p)"

definition get_uidHex :: "CmdArgs \<Rightarrow> string" where
  "get_uidHex args = (case arg_uidHex args of None \<Rightarrow> [] | Some p \<Rightarrow> p)"

definition store_result :: "bool \<times> LockLogic \<Rightarrow> bool \<times> string option \<times> LockLogic" where
  "store_result r = (fst r, if fst r then None else Some ''store_fail'', snd r)"

definition cmd_add_pin :: "CmdArgs \<Rightarrow> LockLogic \<Rightarrow> bool \<times> string option \<times> LockLogic" where
  "cmd_add_pin args s =
     (let slot = get_slot args; p = get_pin args in
      if slot < 0 \<or> slot > 9 then (False, Some ''bad_slot'', s)
      else if p = [] then (False, Some ''bad_pin'', s)
      else store_result (store_op (setPin (of_int slot) p) s))"

definition cmd_delete_pin :: "CmdArgs \<Rightarrow> LockLogic \<Rightarrow> bool \<times> string option \<times> LockLogic" where
  "cmd_delete_pin args s =
     (let slot = get_slot args in
      if slot < 0 \<or> slot > 9 then (False, Some ''bad_slot'', s)
      else store_result (store_op (deletePin (of_int slot)) s))"

definition cmd_add_rfid :: "CmdArgs \<Rightarrow> LockLogic \<Rightarrow> bool \<times> string option \<times> LockLogic" where
  "cmd_add_rfid args s =
     (let slot = get_slot args; uidHex = get_uidHex args in
      if slot < 0 \<or> slot > 9 then (False, Some ''bad_slot'', s)
      else if uidHex = [] then (False, Some ''bad_uid'', s)
      else if length uidHex mod 2 \<noteq> 0 then (False, Some ''bad_uid'', s)
      else
        (let u = parse_uid_loop uidHex 0 [] in
         if length u = 0 then (False, Some ''bad_uid'', s)
         else store_result (store_op (setRfid (of_int slot) u) s)))"

definition cmd_delete_rfid :: "CmdArgs \<Rightarrow> LockLogic \<Rightarrow> bool \<times> string option \<times> LockLogic" where
  "cmd_delete_rfid args s =
     (let slot = get_slot args in
      if slot < 0 \<or> slot > 9 then (False, Some ''bad_slot'', s)
      else store_result (store_op (deleteRfid (of_int slot)) s))"

definition cmd_set_master :: "CmdArgs \<Rightarrow> LockLogic \<Rightarrow> bool \<times> string option \<times> LockLogic" where
  "cmd_set_master args s = store_result (store_op (setMaster (get_pin args)) s)"

definition run_command ::
    "string \<Rightarrow> CmdArgs \<Rightarrow> LockLogic \<Rightarrow> bool \<times> string option \<times> LockLogic" where
  "run_command cmd args s =
     (if cmd = ''lock.add_pin'' then cmd_add_pin args s
      else if cmd = ''lock.delete_pin'' then cmd_delete_pin args s
      else if cmd = ''lock.add_rfid'' then cmd_add_rfid args s
      else if cmd = ''lock.delete_rfid'' then cmd_delete_rfid args s
      else if cmd = ''lock.set_master'' then cmd_set_master args s
      else (False, Some ''unknown_cmd'', s))"

text \<open>
  \<open>UartProtocol::sendCmdResult\<close>: the \<open>error\<close> member is present only when \<open>ok\<close> is
  false and the message is a non-empty string.
\<close>

definition sendCmdResult :: "string \<Rightarrow> bool \<Rightarrow> string option \<Rightarrow> effect list" where
  "sendCmdResult cmdId ok err =
     [SendCmdResult cmdId ok
        (case err of None \<Rightarrow> None | Some e \<Rightarrow> if \<not> ok \<and> e \<noteq> [] then Some e else None)]"

text \<open>\<open>cmd\<close> and \<open>cmdId\<close> are \<open>None\<close> for a null pointer.\<close>

definition onCommand ::
    "u32 \<Rightarrow> string option \<Rightarrow> string option \<Rightarrow> CmdArgs \<Rightarrow> LockLogic \<Rightarrow>
     LockLogic \<times> effect list" where
  "onCommand now cmd cmdId args s =
     (case cmd of
        None \<Rightarrow> (s, [])
      | Some c \<Rightarrow>
          (case cmdId of
             None \<Rightarrow> (s, [])
           | Some i \<Rightarrow>
               if i = [] then (s, [])
               else
                 (let (ok, err, s1) = run_command c args s
                  in (s1, (if uart s1 then sendCmdResult i ok err else []) @ sendState now s1))))"

text \<open>
  A command line as the line protocol dispatches it: \<open>handleLine\<close> with the registered
  handler being \<open>LockLogic::onCommand\<close>.
\<close>

definition dispatch_line ::
    "(string \<Rightarrow> JsonDoc option) \<Rightarrow> u32 \<Rightarrow> string \<Rightarrow> LockLogic \<Rightarrow> LockLogic \<times> effect list" where
  "dispatch_line deserializeJson now line s =
     (case handleLine deserializeJson line of
        None \<Rightarrow> (s, [])
      | Some (cmd, cmdId, args) \<Rightarrow> onCommand now (Some cmd) (Some cmdId) args s)"

text \<open>The state after construction and \<open>begin\<close>, which wires the four collaborators.\<close>

definition LockLogic_new :: LockLogic where
  "LockLogic_new =
     \<lparr>store = None, display = False, buzzer = False, uart = False, lockState = LOCKED,
      unlockUntilMs = 0, pinBuf = [], lastInputMs = 0, failCount = 0, lockoutUntilMs = 0,
      lastMethod = [], lastSuccess = False, lastActionAtMs = 0\<rparr>"

definition begin_lock :: "u32 \<Rightarrow> CredentialsStore \<Rightarrow> LockLogic \<Rightarrow> LockLogic \<times> effect list" where
  "begin_lock now st s =
     (let s1 = clearPinEntry (s\<lparr>store := Some st, display := True, buzzer := True, uart := True\<rparr>)
      in (s1, setDisplayText s1 ''----'' @ sendState now s1))"

subsection \<open>Input events and their outcome\<close>

text \<open>
  The events the main loop feeds to the state machine, each at the time \<open>now\<close> of its
  call, and runs over a sequence of them.
\<close>

datatype input = Key char | Rfid "u8 list" | Tick

fun step :: "u32 \<times> input \<Rightarrow> LockLogic \<Rightarrow> LockLogic \<times> effect list" where
  "step (now, Key k) s = onKey now k s"
| "step (now, Rfid u) s = onRfidUid now u s"
| "step (now, Tick) s = tick now s"

fun run :: "LockLogic \<Rightarrow> (u32 \<times> input) list \<Rightarrow> LockLogic" where
  "run s [] = s"
| "run s (e # es) = run (fst (step e s)) es"

text \<open>
  What an event is for the lockout policy, read off the state in which it arrives: a
  credential attempt is a \<open>#\<close> key with a non-empty PIN buffer or an RFID event with a
  non-empty UID; it is \<open>Ignored\<close> while the lockout is active, otherwise it
  \<open>Succeeded\<close> or \<open>Failed\<close> as the store validates the credential. Everything else
  (digits, \<open>*\<close>, other keys, \<open>#\<close> on an empty buffer, ticks) is \<open>NoAttempt\<close>; a keypad
  event that arrives during the lockout is \<open>Ignored\<close> as well.
\<close>

datatype outcome = Ignored | NoAttempt | Failed | Succeeded

definition pin_ok :: "LockLogic \<Rightarrow> bool" where
  "pin_ok s = (case store s of None \<Rightarrow> False | Some st \<Rightarrow> fst (validatePin (pinBuf s) st))"

definition rfid_ok :: "u8 list \<Rightarrow> LockLogic \<Rightarrow> bool" where
  "rfid_ok u s = (case store s of None \<Rightarrow> False | Some st \<Rightarrow> fst (validateRfid u st))"

fun outcome_of :: "u32 \<times> input \<Rightarrow> LockLogic \<Rightarrow> outcome" where
  "outcome_of (now, Tick) s = NoAttempt"
| "outcome_of (now, Key k) s =
     (if k = CHR 0x00 then NoAttempt
      else if isLockoutActive now s then Ignored
      else if k = CHR ''#'' \<and> pinBuf s \<noteq> [] then (if pin_ok s then Succeeded else Failed)
      else NoAttempt)"
| "outcome_of (now, Rfid u) s =
     (if u = [] then NoAttempt
      else if isLockoutActive now s then Ignored
      else if rfid_ok u s then Succeeded else Failed)"

fun outcomes :: "LockLogic \<Rightarrow> (u32 \<times> input) list \<Rightarrow> outcome list" where
  "outcomes s [] = []"
| "outcomes s (e # es) = outcome_of e s # outcomes (fst (step e s)) es"

section \<open>Predicates of the specification\<close>

text \<open>Whether a loaded image passes the three checks the specification names.\<close>

definition image_valid :: "StoreV1 \<Rightarrow> bool" where
  "image_valid img =
     (magic img = kMagic \<and> sversion img = kVersion \<and>
      crc32 (image_bytes (img\<lparr>crc32_f := 0\<rparr>)) = crc32_f img)"

text \<open>
  The error codes of the specification, and what it asks of a command's result: success
  without an error code, or failure with one of the five codes. \<open>result_shape\<close> adds
  that the command left the \<open>uart\<close> pointer alone. \<open>is_state\<close> tests for a state
  broadcast.
\<close>

definition error_codes :: "string list" where
  "error_codes = [''bad_slot'', ''bad_pin'', ''bad_uid'', ''store_fail'', ''unknown_cmd'']"

definition result_ok :: "bool \<Rightarrow> string option \<Rightarrow> bool" where
  "result_ok ok err =
     (if ok then err = None
      else (case err of None \<Rightarrow> False | Some e \<Rightarrow> List.member error_codes e))"

definition result_shape :: "LockLogic \<Rightarrow> bool \<times> string option \<times> LockLogic \<Rightarrow> bool" where
  "result_shape s r = (case r of (ok, err, s1) \<Rightarrow> uart s1 = uart s \<and> result_ok ok err)"

fun is_state :: "effect \<Rightarrow> bool" where
  "is_state (SendState m) = True"
| "is_state (SetText t) = False"
| "is_state PlaySuccess = False"
| "is_state PlayFail = False"
| "is_state (SendCmdResult i ok e) = False"
| "is_state (SendEvent t m ok sl h) = False"

text \<open>The characters that neither end a line nor are skipped by the line protocol.\<close>

definition plain :: "char \<Rightarrow> bool" where
  "plain c = (c \<noteq> CHR 0x0D \<and> c \<noteq> CHR 0x0A)"

section \<open>Concrete inputs\<close>

text \<open>
  A store whose PIN slot 0 holds 1234 and whose RFID slot 2 holds the UID DE AD BE EF,
  with no master PIN, and the state machine begun on it at time 0.
\<close>

definition demo_image :: StoreV1 where
  "demo_image =
     \<lparr>magic = kMagic, sversion = kVersion, reserved = 0,
      pins = (replicate 10 zero_PinSlot)[0 := filled_PinSlot ''1234'' 4],
      rfids = (replicate 10 zero_RfidSlot)
        [2 := \<lparr>r_valid = 1, r_len = 4, uid = [0xDE, 0xAD, 0xBE, 0xEF, 0, 0, 0, 0, 0, 0]\<rparr>],
      master = zero_PinSlot, pad = replicate 3 0, crc32_f = 0\<rparr>"

definition demo_store :: CredentialsStore where
  "demo_store =
     \<lparr>data = demo_image, eeprom = \<lparr>contents = demo_image, commit_ok = True\<rparr>,
      beyond = [0, 2, 0, 0]\<rparr>"

definition demo_lock :: LockLogic where
  "demo_lock = fst (begin_lock 0 demo_store LockLogic_new)"

text \<open>
  A wrong PIN (9, then \<open>#\<close>) entered at time \<open>t\<close>; four failed attempts, by PIN, by an
  unknown tag, and by PIN twice more with a tick in between; and the state after a fifth
  at time 50.
\<close>

definition wrong_pin :: "u32 \<Rightarrow> (u32 \<times> input) list" where
  "wrong_pin t = [(t, Key CHR ''9''), (t + 1, Key CHR ''#'')]"

definition four_failures :: "(u32 \<times> input) list" where
  "four_failures =
     wrong_pin 10 @ [(20, Rfid [1, 2, 3, 4])] @ wrong_pin 30 @ [(35, Tick)] @ wrong_pin 40"

definition locked_out :: LockLogic where
  "locked_out = run demo_lock (four_failures @ [(50, Rfid [9])])"

text \<open>The state after a fifth failure at the time \<open>2^32 - 30000\<close> instead.\<close>

definition wrapped_out :: LockLogic where
  "wrapped_out = fst (step (4294937296, Rfid [9]) (run demo_lock four_failures))"

text \<open>
  Three lines of JSON text and a stand-in for the JSON parser that understands just
  these, each with the document ArduinoJson reads from it; every other line is a parse
  error.
\<close>

definition overlong_tail :: string where
  \<open>overlong_tail = ''{"cmd":"lock.set_master","cmdId":"7","args":{"pin":""}}''\<close>

definition no_id_line :: string where
  \<open>no_id_line = ''{"cmd":"lock.delete_pin","args":{"slot":0}}''\<close>

definition bad_slot_line :: string where
  \<open>bad_slot_line = ''{"cmd":"lock.add_pin","cmdId":"x1","args":{"slot":11,"pin":"1234"}}''\<close>

definition demo_parser :: "string \<Rightarrow> JsonDoc option" where
  "demo_parser line =
     (if line = overlong_tail then
        Some \<lparr>doc_cmd = Some ''lock.set_master'', doc_cmdId = Some ''7'',
              doc_args = Some \<lparr>arg_slot = None, arg_pin = Some [], arg_uidHex = None\<rparr>,
              doc_params = None\<rparr>
      else if line = no_id_line then
        Some \<lparr>doc_cmd = Some ''lock.delete_pin'', doc_cmdId = None,
              doc_args = Some \<lparr>arg_slot = Some 0, arg_pin = None, arg_uidHex = None\<rparr>,
              doc_params = None\<rparr>
      else if line = bad_slot_line then
        Some \<lparr>doc_cmd = Some ''lock.add_pin'', doc_cmdId = Some ''x1'',
              doc_args = Some \<lparr>arg_slot = Some 11, arg_pin = Some ''1234'', arg_uidHex = None\<rparr>,
              doc_params = None\<rparr>
      else None)"

text \<open>
  The image of an erased EEPROM (every byte \<open>0xFF\<close>), and a store whose EEPROM holds it.
\<close>

definition erased_image :: StoreV1 where
  "erased_image =
     \<lparr>magic = 0xFFFFFFFF, sversion = 0xFFFF, reserved = 0xFFFF,
      pins = replicate 10 \<lparr>p_valid = 0xFF, p_len = 0xFF, pin = replicate 9 (CHR 0xFF)\<rparr>,
      rfids = replicate 10 \<lparr>r_valid = 0xFF, r_len = 0xFF, uid = replicate 10 0xFF\<rparr>,
      master = \<lparr>p_valid = 0xFF, p_len = 0xFF, pin = replicate 9 (CHR 0xFF)\<rparr>,
      pad = replicate 3 0xFF, crc32_f = 0xFFFFFFFF\<rparr>"

definition erased_store :: CredentialsStore where
  "erased_store =
     \<lparr>data = erased_image, eeprom = \<lparr>contents = erased_image, commit_ok = True\<rparr>,
      beyond = [0, 2, 0, 0]\<rparr>"

section \<open>Proofs: TLV getters\<close>

declare le_u64_loop.simps [simp del] str_loop.simps [simp del] tlvGetU8_from.simps [simp del]
  tlvGetU64_from.simps [simp del] tlvGetStr_from.simps [simp del]

lemma take_drop_step:
  "b < l \<Longrightarrow> i + l \<le> length p \<Longrightarrow>
   take (l - b) (drop (i + b) p) = p ! (i + b) # take (l - Suc b) (drop (i + Suc b) p)"
  by (metis Cons_nth_drop_Suc Suc_diff_Suc add_Suc_right add_less_cancel_left less_le_trans
      take_Suc_Cons)

lemma le_u64_loop_eq:
  "b \<le> 8 \<Longrightarrow> i + 8 \<le> length p \<Longrightarrow>
   le_u64_loop p i b v = v OR push_bit (8 * b) (u64_of_le (take (8 - b) (drop (i + b) p)))"
proof (induction p i b v rule: le_u64_loop.induct)
  case (1 p i b v)
  show ?case
  proof (cases "b < 8")
    case True
    with 1 take_drop_step [of b 8 i p] show ?thesis
      by (subst le_u64_loop.simps)
         (simp add: u64_of_le_def ac_simps)
  next
    case False
    with 1 show ?thesis by (subst le_u64_loop.simps) (simp add: u64_of_le_def)
  qed
qed

lemma str_loop_eq:
  "b \<le> l \<Longrightarrow> i + l \<le> length p \<Longrightarrow>
   str_loop p i l b out = out @ take (l - b) (drop (i + b) p)"
proof (induction p i l b out rule: str_loop.induct)
  case (1 p i l b out)
  show ?case
  proof (cases "b < l")
    case True
    with 1 take_drop_step [of b l i p] show ?thesis by (subst str_loop.simps) simp
  next
    case False
    with 1 show ?thesis by (subst str_loop.simps) simp
  qed
qed

lemma drop_two_cons:
  "i + 2 \<le> length p \<Longrightarrow> drop i p = p ! i # p ! (i + 1) # drop (i + 2) p"
  by (metis Cons_nth_drop_Suc Suc_eq_plus1 add_2_eq_Suc' Suc_le_lessD less_Suc_eq
      linorder_not_le not_less_eq_eq)

lemma tlv_records_short: "length p < i + 2 \<Longrightarrow> tlv_records (drop i p) = []"
proof -
  assume "length p < i + 2"
  then have "length (drop i p) < 2" by simp
  then show ?thesis by (cases "drop i p" rule: tlv_records.cases) auto
qed

lemma tlvGetU8_from_spec: "tlvGetU8_from p tag i = spec_getU8 (drop i p) tag"
proof (induction p tag i rule: tlvGetU8_from.induct)
  case (1 p tag i)
  show ?case
  proof (cases "i + 2 \<le> length p")
    case False
    then show ?thesis
      by (subst tlvGetU8_from.simps) (simp add: spec_getU8_def tlv_records_short)
  next
    case inb: True
    note d = drop_two_cons [OF inb]
    let ?l = "unat (p ! (i + 1))"
    show ?thesis
    proof (cases "i + 2 + ?l > length p")
      case True
      with inb show ?thesis
        by (subst tlvGetU8_from.simps) (simp add: spec_getU8_def d Let_def)
    next
      case nb: False
      show ?thesis
      proof (cases "p ! i = tag \<and> ?l = 1")
        case True
        with nb inb show ?thesis
          by (subst tlvGetU8_from.simps)
             (simp add: spec_getU8_def d Let_def take_Suc hd_drop_conv_nth)
      next
        case False
        have "tlvGetU8_from p tag i = tlvGetU8_from p tag (i + 2 + ?l)"
          using False nb inb by (subst tlvGetU8_from.simps) (auto simp: Let_def)
        also have "\<dots> = spec_getU8 (drop (i + 2 + ?l) p) tag"
          using 1 [OF inb refl refl refl] nb False by auto
        also have "\<dots> = spec_getU8 (drop i p) tag"
          using False nb by (auto simp: spec_getU8_def d add.commute)
        finally show ?thesis .
      qed
    qed
  qed
qed

lemma tlvGetU64_from_spec: "tlvGetU64_from p tag i = spec_getU64 (drop i p) tag"
proof (induction p tag i rule: tlvGetU64_from.induct)
  case (1 p tag i)
  show ?case
  proof (cases "i + 2 \<le> length p")
    case False
    then show ?thesis
      by (subst tlvGetU64_from.simps) (simp add: spec_getU64_def tlv_records_short)
  next
    case inb: True
    note d = drop_two_cons [OF inb]
    let ?l = "unat (p ! (i + 1))"
    show ?thesis
    proof (cases "i + 2 + ?l > length p")
      case True
      with inb show ?thesis
        by (subst tlvGetU64_from.simps) (simp add: spec_getU64_def d Let_def)
    next
      case nb: False
      show ?thesis
      proof (cases "p ! i = tag \<and> ?l = 8")
        case True
        with nb inb le_u64_loop_eq [of 0 "i + 2" p 0] show ?thesis
          by (subst tlvGetU64_from.simps) (simp add: spec_getU64_def d Let_def)
      next
        case False
        have "tlvGetU64_from p tag i = tlvGetU64_from p tag (i + 2 + ?l)"
          using False nb inb by (subst tlvGetU64_from.simps) (auto simp: Let_def)
        also have "\<dots> = spec_getU64 (drop (i + 2 + ?l) p) tag"
          using 1 [OF inb refl refl refl] nb False by auto
        also have "\<dots> = spec_getU64 (drop i p) tag"
          using False nb by (auto simp: spec_getU64_def d add.commute)
        finally show ?thesis .
      qed
    qed
  qed
qed

lemma tlvGetStr_from_spec: "tlvGetStr_from p tag i = spec_getStr (drop i p) tag"
proof (induction p tag i rule: tlvGetStr_from.induct)
  case (1 p tag i)
  show ?case
  proof (cases "i + 2 \<le> length p")
    case False
    then show ?thesis
      by (subst tlvGetStr_from.simps) (simp add: spec_getStr_def tlv_records_short)
  next
    case inb: True
    note d = drop_two_cons [OF inb]
    let ?l = "unat (p ! (i + 1))"
    show ?thesis
    proof (cases "i + 2 + ?l > length p")
      case True
      with inb show ?thesis
        by (subst tlvGetStr_from.simps) (auto simp: spec_getStr_def d Let_def)
    next
      case nb: False
      show ?thesis
      proof (cases "p ! i = tag")
        case True
        with nb inb str_loop_eq [of 0 ?l "i + 2" p "[]"] show ?thesis
          by (subst tlvGetStr_from.simps) (simp add: spec_getStr_def d Let_def)
      next
        case False
        have "tlvGetStr_from p tag i = tlvGetStr_from p tag (i + 2 + ?l)"
          using False nb inb by (subst tlvGetStr_from.simps) (auto simp: Let_def)
        also have "\<dots> = spec_getStr (drop (i + 2 + ?l) p) tag"
          using 1 [OF inb refl refl refl] nb False by auto
        also have "\<dots> = spec_getStr (drop i p) tag"
          using False nb by (auto simp: spec_getStr_def d add.commute)
        finally show ?thesis .
      qed
    qed
  qed
qed

lemma tlv_records_encode:
  "list_all (\<lambda>(t, v). length v < 256) rs \<Longrightarrow> tlv_malformed bad \<Longrightarrow>
   tlv_records (tlv_encode rs @ bad) = rs"
proof (induction rs)
  case Nil
  then show ?case by (cases bad rule: tlv_malformed.cases) auto
next
  case (Cons r rs)
  obtain t v where r: "r = (t, v)" by (cases r)
  from Cons.prems r have "length v < 256" by simp
  then have "unat (of_nat (length v) :: u8) = length v"
    by (simp add: unat_of_nat)
  with Cons r show ?case by simp
qed

text \<open>
  Claim C7. For every TLV buffer and tag, each getter returns the value of the first
  record, in sequential order, whose tag matches and whose length fits (exactly 1 for
  \<open>tlvGetU8\<close>, exactly 8 for \<open>tlvGetU64\<close>, any length for \<open>tlvGetStr\<close>), where
  the records of a buffer are those that precede the first malformed one: a record
  whose declared length exceeds the rest of the buffer ends the scan, the getter then
  reports not-found (\<open>None\<close>, never an error) and nothing at or behind the malformed
  record is returned. The last conjunct says that the records read from the image of
  well-formed records followed by a malformed remainder are exactly those records.
\<close>

theorem tlv_getters_first_match:
  "tlvGetU8 p tag = spec_getU8 p tag \<and>
   tlvGetU64 p tag = spec_getU64 p tag \<and>
   tlvGetStr p tag = spec_getStr p tag \<and>
   (list_all (\<lambda>(t, v). length v < 256) rs \<and> tlv_malformed bad \<longrightarrow>
      tlv_records (tlv_encode rs @ bad) = rs)"
  using tlvGetU8_from_spec [of p tag 0] tlvGetU64_from_spec [of p tag 0]
    tlvGetStr_from_spec [of p tag 0] tlv_records_encode [of rs bad]
  by (simp add: tlvGetU8_def tlvGetU64_def tlvGetStr_def)

theorem tlv_getters_first_match_witness:
  "tlvGetU8 [1, 2, 5, 5, 1, 1, 7, 1, 1, 8, 1, 5, 9] 1 = Some 7 \<and>
   tlvGetU64 [2, 1, 0, 2, 8, 1, 2, 0, 0, 0, 0, 0, 0, 2, 9, 3] 2 = Some 513 \<and>
   tlvGetStr [4, 0, 3, 2, 65, 66, 3, 1, 67, 3, 7, 68] 3 = Some [65, 66] \<and>
   tlvGetU8 [1, 2, 5, 5, 3, 1, 7, 9, 200, 6, 1, 1, 8] 6 = None \<and>
   list_all (\<lambda>(t, v). length v < 256) [(1, [7 :: u8]), (3 :: u8, [65, 66])] \<and>
   tlv_malformed [1 :: u8, 5, 9] \<and>
   tlv_records (tlv_encode [(1, [7]), (3, [65, 66])] @ [1, 5, 9]) = [(1, [7]), (3, [65, 66])]"
  using tlv_getters_first_match [of "[1, 2, 5, 5, 1, 1, 7, 1, 1, 8, 1, 5, 9]" 1
      "[(1, [7]), (3, [65, 66])]" "[1, 5, 9]"]
    tlv_getters_first_match [of "[2, 1, 0, 2, 8, 1, 2, 0, 0, 0, 0, 0, 0, 2, 9, 3]" 2 "[]" "[]"]
    tlv_getters_first_match [of "[4, 0, 3, 2, 65, 66, 3, 1, 67, 3, 7, 68]" 3 "[]" "[]"]
    tlv_getters_first_match [of "[1, 2, 5, 5, 3, 1, 7, 9, 200, 6, 1, 1, 8]" 6 "[]" "[]"]
  by (simp add: spec_getU8_def spec_getU64_def spec_getStr_def u64_of_le_def)

section \<open>Proofs: frame codec\<close>

lemma u16_le_join: "(ucast (ucast n :: u8) :: u16) OR push_bit 8 (ucast (ucast (drop_bit 8 n) :: u8)) = (n :: u16)"
  by (rule bit_word_eqI) (auto simp: bit_simps)

lemma mask_FF: "(n :: u16) AND 0xFF = take_bit 8 n"
proof -
  have "(0xFF :: u16) = mask 8" by (simp add: mask_eq_exp_minus_1)
  then show ?thesis by (simp add: take_bit_eq_mask)
qed

lemma u8_low_mask: "(ucast ((n :: u16) AND 0xFF) :: u8) = ucast n"
  unfolding mask_FF by (rule bit_word_eqI) (auto simp: bit_simps)

lemma crc16_append: "crc16_ccitt_false (xs @ ys) c = crc16_ccitt_false ys (crc16_ccitt_false xs c)"
  by (induction xs arbitrary: c) simp_all

lemma parse_short: "length b < 6 \<Longrightarrow> parse_frames b out = (False, b, out)"
  by (subst parse_frames.simps) simp

lemma frame_bytes_alt:
  "frame_bytes v t pl = 0xA5 # 0x5A # v # t # ucast (of_nat (length pl) :: u16) # ucast (drop_bit 8 (of_nat (length pl) :: u16)) # pl @
     [ucast (frame_crc v t pl), ucast (drop_bit 8 (frame_crc v t pl))]"
  by (simp add: frame_bytes_def frame_body_def Let_def)

lemma length_frame_bytes: "length (frame_bytes v t pl) = length pl + 8"
  by (simp add: frame_bytes_alt)

lemma parse_prefix:
  assumes "length pl < 65536" "b = take k (frame_bytes v t pl)" "6 \<le> k" "k < length pl + 8"
  shows "parse_frames b out = (False, b, out)"
proof -
  have n: "unat (of_nat (length pl) :: u16) = length pl" using assms(1) by (simp add: unat_of_nat)
  have lb: "length b = k" using assms by (simp add: length_frame_bytes)
  have b0: "b ! 0 = 0xA5" "b ! Suc 0 = 0x5A" "b ! 4 = ucast (of_nat (length pl) :: u16)" "b ! 5 = ucast (drop_bit 8 (of_nat (length pl) :: u16))"
    using assms by (simp_all add: frame_bytes_alt)
  show ?thesis
    using lb assms(3,4) by (subst parse_frames.simps) (simp add: b0 u16_le_join n Let_def)
qed

lemma parse_whole:
  assumes "length pl \<le> 384"
  shows "parse_frames (frame_bytes v t pl) out =
     (True, [], out\<lparr>version := v, msgType := t, plength := of_nat (length pl), payload := pl @ drop (length pl) (payload out)\<rparr>)"
proof -
  let ?b = "frame_bytes v t pl"
  let ?c = "frame_crc v t pl"
  have n: "unat (of_nat (length pl) :: u16) = length pl" using assms by (simp add: unat_of_nat)
  have b0: "?b ! 0 = 0xA5" "?b ! Suc 0 = 0x5A" "?b ! 2 = v" "?b ! 3 = t" "?b ! 4 = ucast (of_nat (length pl) :: u16)" "?b ! 5 = ucast (drop_bit 8 (of_nat (length pl) :: u16))"
    by (simp_all add: frame_bytes_alt)
  have c0: "?b ! Suc (Suc (Suc (Suc (Suc (Suc (length pl)))))) = ucast ?c"
    "?b ! Suc (Suc (Suc (Suc (Suc (Suc (Suc (length pl))))))) = ucast (drop_bit 8 ?c)"
    by (simp_all add: frame_bytes_def frame_body_def Let_def nth_append)
  have body: "take (Suc (Suc (Suc (Suc (length pl))))) (drop 2 ?b) = frame_body v t pl"
    by (simp add: frame_bytes_def frame_body_def Let_def)
  have pay: "take (length pl) (drop 6 ?b) = pl"
    by (simp add: frame_bytes_alt)
  have calc: "crc16_ccitt_false (frame_body v t pl) 0xFFFF = ?c" by (simp add: frame_crc_def)
  show ?thesis
    using assms
    by (subst parse_frames.simps)
       (simp add: b0 c0 body calc pay u16_le_join n Let_def length_frame_bytes add.commute)
qed

lemma feed_frame_from:
  assumes len: "length pl \<le> 384"
  shows "k < length pl + 8 \<Longrightarrow> buf p = take k (frame_bytes v t pl) \<Longrightarrow>
     feed p (drop k (frame_bytes v t pl)) out =
       (True, p\<lparr>buf := []\<rparr>, [],
        out\<lparr>version := v, msgType := t, plength := of_nat (length pl),
            payload := pl @ drop (length pl) (payload out)\<rparr>)"
proof (induction "length pl + 8 - k" arbitrary: k p)
  case 0
  then show ?case by simp
next
  case (Suc n)
  let ?F = "frame_bytes v t pl"
  have lF: "length ?F = length pl + 8" by (rule length_frame_bytes)
  from Suc.prems have kF: "k < length ?F" by (simp add: lF)
  have dr: "drop k ?F = ?F ! k # drop (Suc k) ?F"
    using kF by (simp add: Cons_nth_drop_Suc)
  have tk: "buf p @ [?F ! k] = take (Suc k) ?F"
    using kF Suc.prems by (simp add: take_Suc_conv_app_nth)
  have small: "\<not> 512 \<le> length (buf p)" using Suc.prems len by (simp add: lF)
  consider (short) "Suc k < 6" | (mid) "6 \<le> Suc k" "Suc k < length pl + 8" | (full) "Suc k = length pl + 8"
    using Suc.prems by linarith
  then show ?case
  proof cases
    case short
    then have "parse_frames (take (Suc k) ?F) out = (False, take (Suc k) ?F, out)"
      by (intro parse_short) simp
    moreover have "feed (p\<lparr>buf := take (Suc k) ?F\<rparr>) (drop (Suc k) ?F) out =
        (True, p\<lparr>buf := []\<rparr>, [], out\<lparr>version := v, msgType := t, plength := of_nat (length pl),
            payload := pl @ drop (length pl) (payload out)\<rparr>)"
      using Suc.hyps(1) [of "Suc k" "p\<lparr>buf := take (Suc k) ?F\<rparr>"] Suc.hyps(2) short by simp
    ultimately show ?thesis using small by (simp add: dr tk)
  next
    case mid
    then have "parse_frames (take (Suc k) ?F) out = (False, take (Suc k) ?F, out)"
      using len by (intro parse_prefix [where k = "Suc k" and pl = pl and v = v and t = t]) simp_all
    moreover have "feed (p\<lparr>buf := take (Suc k) ?F\<rparr>) (drop (Suc k) ?F) out =
        (True, p\<lparr>buf := []\<rparr>, [], out\<lparr>version := v, msgType := t, plength := of_nat (length pl),
            payload := pl @ drop (length pl) (payload out)\<rparr>)"
      using Suc.hyps(1) [of "Suc k" "p\<lparr>buf := take (Suc k) ?F\<rparr>"] Suc.hyps(2) mid by simp
    ultimately show ?thesis using small by (simp add: dr tk)
  next
    case full
    then have "take (Suc k) ?F = ?F" "drop (Suc k) ?F = []" by (simp_all add: lF)
    then show ?thesis using small parse_whole [OF len, of v t out] by (simp add: dr tk)
  qed
qed

lemma feed_frame:
  "length pl \<le> 384 \<Longrightarrow>
   feed UartFrameParser_new (frame_bytes v t pl) out =
     (True, UartFrameParser_new, [],
      out\<lparr>version := v, msgType := t, plength := of_nat (length pl),
          payload := pl @ drop (length pl) (payload out)\<rparr>)"
  using feed_frame_from [of pl 0 UartFrameParser_new v t out]
  by (simp add: UartFrameParser_new_def)

lemma u16_le_384: "n \<le> 384 \<Longrightarrow> \<not> (of_nat n :: u16) > 384"
  by (simp add: word_less_nat_alt unat_of_nat)

lemma u16_pos: "0 < n \<Longrightarrow> n \<le> 384 \<Longrightarrow> (of_nat n :: u16) > 0"
  by (simp add: word_less_nat_alt unat_of_nat)

lemma write_frame:
  "length pl \<le> 384 \<Longrightarrow>
   uartWriteFrame s t (Some pl) (of_nat (length pl)) = (True, s @ frame_bytes 1 t pl)"
proof (cases "pl = []")
  case True
  then show ?thesis
    by (simp add: uartWriteFrame_def frame_bytes_def frame_body_def frame_crc_def Let_def u8_low_mask)
next
  case False
  assume "length pl \<le> 384"
  with False have pos: "(of_nat (length pl) :: u16) > 0" and le: "\<not> (of_nat (length pl) :: u16) > 384"
    and n: "unat (of_nat (length pl) :: u16) = length pl"
    by (simp_all add: u16_pos u16_le_384 unat_of_nat)
  have "crc16_ccitt_false pl (crc16_ccitt_false [1, t, ucast (of_nat (length pl) :: u16), ucast (drop_bit 8 (of_nat (length pl) :: u16))] 0xFFFF)
      = frame_crc 1 t pl"
    unfolding frame_crc_def frame_body_def Let_def crc16_append ..
  then show ?thesis
    using pos le n
    by (simp add: uartWriteFrame_def frame_bytes_def frame_body_def Let_def u8_low_mask)
qed

lemma find_drop_none:
  "\<not> has_preamble (drop i b) \<Longrightarrow> find_drop b i = 1"
proof (induction b i rule: find_drop.induct)
  case (1 b i)
  show ?case
  proof (cases "i + 1 < length b")
    case True
    then have d: "drop i b = b ! i # b ! (i + 1) # drop (i + 2) b"
      by (intro drop_two_cons) simp
    with 1(2) have np: "\<not> (b ! i = 0xA5 \<and> b ! (i + 1) = 0x5A)" and
      rest: "\<not> has_preamble (b ! (i + 1) # drop (i + 2) b)" by auto
    have "drop (i + 1) b = b ! (i + 1) # drop (i + 2) b"
      using True by (metis Cons_nth_drop_Suc Suc_eq_plus1 add_2_eq_Suc')
    with rest have "\<not> has_preamble (drop (i + 1) b)" by simp
    with 1(1) [OF True] np have "find_drop b (i + 1) = 1" by blast
    with True np show ?thesis by (subst find_drop.simps) auto
  next
    case False
    then show ?thesis by (subst find_drop.simps) simp
  qed
qed

lemma has_preamble_tl: "\<not> has_preamble b \<Longrightarrow> \<not> has_preamble (drop 1 b)"
  by (cases b rule: has_preamble.cases) auto

lemma has_preamble_head: "\<not> has_preamble b \<Longrightarrow> 2 \<le> length b \<Longrightarrow> b ! 0 \<noteq> 0xA5 \<or> b ! 1 \<noteq> 0x5A"
  by (cases b rule: has_preamble.cases) auto

lemma parse_frames_no_preamble:
  "6 \<le> length b \<Longrightarrow> \<not> has_preamble b \<Longrightarrow>
   parse_frames b out = (False, drop (length b - 5) b, out)"
proof (induction "length b" arbitrary: b)
  case 0
  then show ?case by simp
next
  case (Suc n)
  from Suc.prems have hd: "b ! 0 \<noteq> 0xA5 \<or> b ! 1 \<noteq> 0x5A"
    by (intro has_preamble_head) simp_all
  have np1: "\<not> has_preamble (drop 1 b)" using Suc.prems by (intro has_preamble_tl)
  then have fd: "find_drop b 1 = 1" by (rule find_drop_none)
  have step: "parse_frames b out = parse_frames (drop 1 b) out"
    using Suc.prems(1) hd fd by (subst parse_frames.simps) auto
  show ?case
  proof (cases "6 \<le> length (drop 1 b)")
    case True
    have "n = length (drop 1 b)" using Suc.hyps(2) by simp
    from Suc.hyps(1) [OF this True np1]
    have "parse_frames (drop 1 b) out = (False, drop (length (drop 1 b) - 5) (drop 1 b), out)" .
    moreover have "length (drop 1 b) - 5 + 1 = length b - 5" using True by simp
    ultimately show ?thesis using step by (simp add: add.commute)
  next
    case False
    with Suc.prems(1) have l: "length b = 6" by simp
    then have "parse_frames (drop 1 b) out = (False, drop 1 b, out)"
      by (intro parse_short) simp
    with step l show ?thesis by simp
  qed
qed

lemma u16_split_lo: "(ucast (ucast (lo :: u8) OR push_bit 8 (ucast (hi :: u8)) :: u16) :: u8) = lo"
  by (rule bit_word_eqI) (auto simp: bit_simps)

lemma u16_split_hi: "(ucast (drop_bit 8 (ucast (lo :: u8) OR push_bit 8 (ucast (hi :: u8)) :: u16)) :: u8) = hi"
  by (rule bit_word_eqI) (auto simp: bit_simps dest: bit_imp_le_length)

lemma explicit_frame:
  assumes "unat (ucast lo OR push_bit 8 (ucast hi) :: u16) = length P"
    and "(ucast clo OR push_bit 8 (ucast chi) :: u16) = crc16_ccitt_false ([v, t, lo, hi] @ P) 0xFFFF"
  shows "[0xA5, 0x5A, v, t, lo, hi] @ P @ [clo, chi] = frame_bytes v t P"
proof -
  have n: "(of_nat (length P) :: u16) = ucast lo OR push_bit 8 (ucast hi)"
    using of_nat_unat [of "ucast lo OR push_bit 8 (ucast hi) :: u16", where 'a = "16 word"]
    by (simp add: assms(1))
  have lohi: "(ucast (of_nat (length P) :: u16) :: u8) = lo"
    "(ucast (drop_bit 8 (of_nat (length P) :: u16)) :: u8) = hi"
    unfolding n by (rule u16_split_lo, rule u16_split_hi)
  have body: "frame_body v t P = [v, t, lo, hi] @ P"
    by (simp add: frame_body_def Let_def lohi)
  have c: "frame_crc v t P = ucast clo OR push_bit 8 (ucast chi)"
    using assms(2) by (simp add: frame_crc_def body)
  have "(ucast (frame_crc v t P) :: u8) = clo" "(ucast (drop_bit 8 (frame_crc v t P)) :: u8) = chi"
    unfolding c by (rule u16_split_lo, rule u16_split_hi)
  then show ?thesis
    by (simp add: frame_bytes_def body)
qed

lemma write_example:
  "uartWriteFrame [] 7 (Some [1, 2, 3]) 3 = (True, [165, 90, 1, 7, 3, 0, 1, 2, 3, 13, 14])"
  by code_simp

lemma crc_example9:
  "crc16_ccitt_false [9, 7, 3, 0, 1, 2, 3] 0xFFFF = (ucast (160 :: u8) OR push_bit 8 (ucast (157 :: u8)))"
  by code_simp

text \<open>
  Claim C3. For every message type \<open>T\<close> and payload \<open>P\<close> of at most 384 bytes, the
  writer succeeds, and feeding exactly the bytes it wrote into a fresh parser delivers a
  frame whose message type is \<open>T\<close> and whose payload is \<open>P\<close>; the whole stream is consumed
  and the parser's buffer is empty again, so one frame and no more is delivered (a further
  call of \<open>feed\<close> returns false and changes nothing). For every length above 384 the
  writer returns false and writes nothing to the stream.
\<close>

theorem frame_write_then_parse:
  "(length P \<le> 384 \<longrightarrow>
      (let (ok, bytes) = uartWriteFrame [] T (Some P) (of_nat (length P));
           (got, p', rest, out') = feed UartFrameParser_new bytes out
       in ok \<and> got \<and> msgType out' = T \<and> frame_payload out' = P \<and> version out' = 1 \<and>
          rest = [] \<and> p' = UartFrameParser_new \<and>
          feed p' rest out' = (False, p', rest, out'))) \<and>
   (384 < len \<longrightarrow> uartWriteFrame s T pl len = (False, s))"
proof (intro conjI impI)
  assume len: "length P \<le> 384"
  then have n: "unat (of_nat (length P) :: u16) = length P" by (simp add: unat_of_nat)
  show "let (ok, bytes) = uartWriteFrame [] T (Some P) (of_nat (length P));
           (got, p', rest, out') = feed UartFrameParser_new bytes out
       in ok \<and> got \<and> msgType out' = T \<and> frame_payload out' = P \<and> version out' = 1 \<and>
          rest = [] \<and> p' = UartFrameParser_new \<and>
          feed p' rest out' = (False, p', rest, out')"
    using write_frame [OF len, of "[]" T] feed_frame [OF len, of 1 T out]
    by (simp add: frame_payload_def n)
next
  assume "384 < len"
  then show "uartWriteFrame s T pl len = (False, s)" by (simp add: uartWriteFrame_def)
qed


theorem frame_write_then_parse_witness:
  "length [1, 2, 3 :: u8] \<le> 384 \<and>
   uartWriteFrame [] 7 (Some [1, 2, 3]) 3 = (True, [165, 90, 1, 7, 3, 0, 1, 2, 3, 13, 14]) \<and>
   (let (got, p', rest, out') =
          feed UartFrameParser_new [165, 90, 1, 7, 3, 0, 1, 2, 3, 13, 14] UartFrame_new
    in got \<and> msgType out' = 7 \<and> frame_payload out' = [1, 2, 3] \<and> version out' = 1 \<and>
       rest = [] \<and> p' = UartFrameParser_new \<and>
       feed p' rest out' = (False, p', rest, out')) \<and>
   (384 :: u16) < 385 \<and> uartWriteFrame [] 7 None 385 = (False, [])"
  using frame_write_then_parse [of "[1, 2, 3]" 7 UartFrame_new 385 "[]" None] write_example
  by simp

text \<open>
  Claim C8, as the specification states it, fails: a fresh parser that has read six
  zero bytes (no preamble anywhere) keeps five of them, not only the last one.
\<close>

theorem resync_keeps_last_byte_counterexample:
  "6 \<le> length [0, 0, 0, 0, 0, 0 :: u8] \<and> \<not> has_preamble [0, 0, 0, 0, 0, 0] \<and>
   feed UartFrameParser_new [0, 0, 0, 0, 0, 0] UartFrame_new =
     (False, \<lparr>buf = [0, 0, 0, 0, 0]\<rparr>, [], UartFrame_new) \<and>
   parse_frames [0, 0, 0, 0, 0, 0] UartFrame_new = (False, [0, 0, 0, 0, 0], UartFrame_new) \<and>
   fst (snd (parse_frames [0, 0, 0, 0, 0, 0] UartFrame_new)) \<noteq> [last [0, 0, 0, 0, 0, 0]]"
  by (simp add: UartFrameParser_new_def parse_short parse_frames_no_preamble)

text \<open>
  Claim C8, amended. Whenever the parser holds at least 6 buffered bytes in which the
  preamble pair \<open>0xA5, 0x5A\<close> occurs nowhere (so the first two bytes are not the
  preamble either), the parse loop delivers no frame, leaves \<open>out\<close> untouched and
  discards bytes from the front until exactly the last 5 buffered bytes remain; the last
  byte, which may be the first half of a preamble, is among them.
\<close>

theorem resync_without_preamble_keeps_five:
  "6 \<le> length b \<Longrightarrow> \<not> has_preamble b \<Longrightarrow>
   parse_frames b out = (False, drop (length b - 5) b, out) \<and>
   length (drop (length b - 5) b) = 5 \<and> last (drop (length b - 5) b) = last b"
  using parse_frames_no_preamble [of b out] by simp

theorem resync_without_preamble_keeps_five_witness:
  "6 \<le> length [1, 2, 3, 4, 5, 6, 0xA5 :: u8] \<and> \<not> has_preamble [1, 2, 3, 4, 5, 6, 0xA5] \<and>
   parse_frames [1, 2, 3, 4, 5, 6, 0xA5] UartFrame_new = (False, [3, 4, 5, 6, 0xA5], UartFrame_new)"
  using resync_without_preamble_keeps_five [of "[1, 2, 3, 4, 5, 6, 0xA5]" UartFrame_new]
  by simp

text \<open>
  Claim C10. The parser never looks at the version byte: every byte sequence that is a
  frame (preamble, any version byte \<open>v\<close>, a message type, the little-endian length of a
  payload of at most 384 bytes, the payload, and the little-endian CRC16 of
  version..payload) is accepted by a fresh parser and delivered with \<open>out.version = v\<close>,
  its message type and its payload. The writer itself only ever emits version 1.
\<close>

theorem parser_accepts_any_version:
  "length P \<le> 384 \<Longrightarrow>
   unat (ucast lo OR push_bit 8 (ucast hi) :: u16) = length P \<Longrightarrow>
   (ucast clo OR push_bit 8 (ucast chi) :: u16) = crc16_ccitt_false ([v, t, lo, hi] @ P) 0xFFFF \<Longrightarrow>
   (let (got, p', rest, out') =
          feed UartFrameParser_new ([0xA5, 0x5A, v, t, lo, hi] @ P @ [clo, chi]) out
    in got \<and> version out' = v \<and> msgType out' = t \<and> frame_payload out' = P \<and> rest = []) \<and>
   snd (uartWriteFrame [] t (Some P) (of_nat (length P))) ! 2 = 1"
proof -
  assume len: "length P \<le> 384"
    and lo: "unat (ucast lo OR push_bit 8 (ucast hi) :: u16) = length P"
    and crc: "(ucast clo OR push_bit 8 (ucast chi) :: u16) = crc16_ccitt_false ([v, t, lo, hi] @ P) 0xFFFF"
  have n: "unat (of_nat (length P) :: u16) = length P" using len by (simp add: unat_of_nat)
  have "snd (uartWriteFrame [] t (Some P) (of_nat (length P))) ! 2 = 1"
    using write_frame [OF len, of "[]" t] by (simp add: frame_bytes_alt)
  then show ?thesis
    using feed_frame [OF len, of v t out] explicit_frame [OF lo crc]
    by (simp add: frame_payload_def n)
qed

theorem parser_accepts_any_version_witness:
  "length [1, 2, 3 :: u8] \<le> 384 \<and>
   unat (ucast (3 :: u8) OR push_bit 8 (ucast (0 :: u8)) :: u16) = length [1, 2, 3 :: u8] \<and>
   (ucast (160 :: u8) OR push_bit 8 (ucast (157 :: u8)) :: u16) =
      crc16_ccitt_false ([9, 7, 3, 0] @ [1, 2, 3]) 0xFFFF \<and>
   (let (got, p', rest, out') =
          feed UartFrameParser_new [0xA5, 0x5A, 9, 7, 3, 0, 1, 2, 3, 160, 157] UartFrame_new
    in got \<and> version out' = 9 \<and> msgType out' = 7 \<and> frame_payload out' = [1, 2, 3] \<and> rest = [])"
proof -
  have c: "(ucast (160 :: u8) OR push_bit 8 (ucast (157 :: u8)) :: u16) =
      crc16_ccitt_false ([9, 7, 3, 0] @ [1, 2, 3]) 0xFFFF"
    using crc_example9 by simp
  have l: "unat (ucast (3 :: u8) OR push_bit 8 (ucast (0 :: u8)) :: u16) = length [1, 2, 3 :: u8]"
    by simp
  have "length [1, 2, 3 :: u8] \<le> 384" by simp
  from parser_accepts_any_version [OF this l c, of UartFrame_new] c l show ?thesis
    by simp
qed

section \<open>Proofs: lockout and PIN entry timeout\<close>

text \<open>
  How one event, and a run of events, moves the failure counter and the deadline.
\<close>

lemma u8_lt_four_succ: "(c :: u8) < 4 \<Longrightarrow> \<not> (c + 1 \<ge> 5)"
  by unat_arith

lemma step_ignored:
  "outcome_of e s = Ignored \<Longrightarrow> step e s = (s, [])"
  by (cases "(e, s)" rule: outcome_of.cases)
     (auto simp: onKey_def onRfidUid_def split: if_splits)

lemma unlockFail_count:
  "failCount (fst (unlockFail now m h s)) = (if failCount s + 1 \<ge> 5 then 0 else failCount s + 1)"
  "lockoutUntilMs (fst (unlockFail now m h s)) =
     (if failCount s + 1 \<ge> 5 then now + 30000 else lockoutUntilMs s)"
  by (simp_all add: unlockFail_def Let_def kMaxFailsBeforeLockout_def kLockoutDurationMs_def)

lemma unlockSuccess_count:
  "failCount (fst (unlockSuccess now m sl h s)) = 0"
  "lockoutUntilMs (fst (unlockSuccess now m sl h s)) = lockoutUntilMs s"
  by (simp_all add: unlockSuccess_def Let_def)

lemma step_failed:
  "outcome_of e s = Failed \<Longrightarrow>
   failCount (fst (step e s)) = (if failCount s + 1 \<ge> 5 then 0 else failCount s + 1) \<and>
   lockoutUntilMs (fst (step e s)) =
     (if failCount s + 1 \<ge> 5 then fst e + 30000 else lockoutUntilMs s)"
  by (cases "(e, s)" rule: outcome_of.cases)
     (auto simp: onKey_def onRfidUid_def attemptPin_def pin_ok_def rfid_ok_def is_digit_def
        unlockFail_count clearPinEntry_def
        split: if_splits option.splits prod.splits)

lemma step_succeeded:
  "outcome_of e s = Succeeded \<Longrightarrow>
   failCount (fst (step e s)) = 0 \<and> lockoutUntilMs (fst (step e s)) = lockoutUntilMs s"
  by (cases "(e, s)" rule: outcome_of.cases)
     (auto simp: onKey_def onRfidUid_def attemptPin_def pin_ok_def rfid_ok_def is_digit_def
        unlockSuccess_count clearPinEntry_def
        split: if_splits option.splits prod.splits)

lemma step_no_attempt:
  "outcome_of e s = NoAttempt \<Longrightarrow>
   failCount (fst (step e s)) = failCount s \<and> lockoutUntilMs (fst (step e s)) = lockoutUntilMs s"
  by (cases "(e, s)" rule: outcome_of.cases)
     (auto simp: onKey_def onRfidUid_def attemptPin_def tick_def Let_def clearPinEntry_def
        split: if_splits option.splits prod.splits)

lemma run_snoc: "run s (es @ [e]) = fst (step e (run s es))"
  by (induction es arbitrary: s) simp_all

lemma outcomes_snoc: "outcomes s (es @ [e]) = outcomes s es @ [outcome_of e (run s es)]"
  by (induction es arbitrary: s) simp_all

lemma u8_count_step:
  "k < 4 \<Longrightarrow> (of_nat k :: u8) + 1 = of_nat (Suc k) \<and> \<not> ((of_nat k :: u8) + 1 \<ge> 5)"
proof -
  assume "k < 4"
  then consider "k = 0" | "k = 1" | "k = 2" | "k = 3" by linarith
  then show ?thesis by cases (simp_all add: word_le_nat_alt)
qed

lemma failures_accumulate:
  "failCount s = of_nat k \<Longrightarrow>
   list_all (\<lambda>out. out \<noteq> Succeeded) (outcomes s es) \<Longrightarrow>
   k + count_list (outcomes s es) Failed < 5 \<Longrightarrow>
   failCount (run s es) = of_nat (k + count_list (outcomes s es) Failed) \<and>
   lockoutUntilMs (run s es) = lockoutUntilMs s"
proof (induction es arbitrary: s k)
  case Nil
  then show ?case by simp
next
  case (Cons e es)
  let ?s = "fst (step e s)"
  from Cons.prems(2) have rest: "list_all (\<lambda>out. out \<noteq> Succeeded) (outcomes ?s es)"
    and ne: "outcome_of e s \<noteq> Succeeded" by simp_all
  show ?case
  proof (cases "outcome_of e s")
    case Ignored
    then have "?s = s" by (simp add: step_ignored)
    with Cons.IH [of s k] Cons.prems Ignored show ?thesis by simp
  next
    case NoAttempt
    with step_no_attempt [of e s] Cons.prems(1)
    have "failCount ?s = of_nat k" "lockoutUntilMs ?s = lockoutUntilMs s" by simp_all
    with Cons.IH [of ?s k] rest Cons.prems(3) NoAttempt show ?thesis by simp
  next
    case Failed
    with Cons.prems(3) have k: "k < 4" by simp
    have eq: "failCount s + 1 = of_nat (Suc k)" and nf: "\<not> (failCount s + 1 \<ge> 5)"
      using u8_count_step [OF k] unfolding Cons.prems(1) by blast+
    have "failCount ?s = failCount s + 1" "lockoutUntilMs ?s = lockoutUntilMs s"
      using step_failed [OF Failed] nf by (simp_all only: if_False)
    with eq have "failCount ?s = of_nat (Suc k)" "lockoutUntilMs ?s = lockoutUntilMs s"
      by (simp_all only:)
    with Cons.IH [of ?s "Suc k"] rest Cons.prems(3) Failed show ?thesis by simp
  next
    case Succeeded
    with ne show ?thesis by simp
  qed
qed

lemma wrap_sum: "(now :: u32) + 30000 = 0 \<longleftrightarrow> now = 4294937296"
proof
  assume "now + 30000 = 0"
  then have "now = - 30000" by (simp add: eq_neg_iff_add_eq_0)
  then show "now = 4294937296" by simp
next
  assume "now = 4294937296"
  then show "now + 30000 = 0" by simp
qed

lemma within_window: "(d :: u32) < 30000 \<Longrightarrow> sint (d - 30000) < 0"
proof -
  assume d: "d < 30000"
  then have u: "uint d < 30000" by (simp add: word_less_def)
  have "sint (d - 30000) = signed_take_bit 31 (uint d - 30000)"
    by (simp add: sint_uint uint_word_ariths signed_take_bit_eq_iff_take_bit_eq take_bit_eq_mod
        mod_simps)
  also have "\<dots> = uint d - 30000"
    using u by (intro signed_take_bit_int_eq_self) simp_all
  finally show ?thesis using u by simp
qed

lemma window_difference: "(now :: u32) + d - (now + 30000) = d - 30000"
  by simp

lemma locked_step:
  "isLockoutActive t s \<Longrightarrow> step (t, Key k) s = (s, []) \<and> step (t, Rfid u) s = (s, [])"
  by (simp add: onKey_def onRfidUid_def)

lemma unlocked_key:
  "\<not> isLockoutActive t s \<Longrightarrow> is_digit k \<Longrightarrow> length (pinBuf s) < 8 \<Longrightarrow>
   pinBuf (fst (step (t, Key k) s)) = pinBuf s @ [k]"
  by (auto simp: onKey_def is_digit_def kMaxPinLen_def)

text \<open>
  Claim C1 says that exactly 5 consecutive validation failures set the lockout deadline
  to \<open>now + 30000\<close> and reset the counter, and that every keypad and RFID event is
  ignored while that deadline is in the future. What the code does at the failure that
  finds the counter at 4: the counter is reset to 0 and the deadline becomes
  \<open>now + 30000\<close> in 32-bit arithmetic. If \<open>now\<close> is not \<open>2^32 - 30000\<close>, the lockout is
  active during the following 30000 ms and key and RFID events in that window leave the
  state unchanged and emit nothing. If \<open>now = 4294937296 = 2^32 - 30000\<close>, the sum wraps
  to 0, the value that \<open>isLockoutActive\<close> reads as no lockout: at every later time the
  lockout is inactive, a key is processed (a digit is appended to the buffer), an RFID
  event is evaluated, and one that fails is counted as failure number 1.
\<close>

theorem fifth_failure_at_wrap_is_no_lockout:
  assumes "outcome_of (now, ev) s = Failed" and "failCount s = 4"
  shows "let s' = fst (step (now, ev) s) in
     failCount s' = 0 \<and> lockoutUntilMs s' = now + 30000 \<and>
     (now = 4294937296 \<longrightarrow>
        lockoutUntilMs s' = 0 \<and> \<not> isLockoutActive later s' \<and>
        (k \<noteq> CHR 0x00 \<longrightarrow> outcome_of (later, Key k) s' \<noteq> Ignored) \<and>
        (is_digit k \<and> length (pinBuf s') < 8 \<longrightarrow>
           pinBuf (fst (step (later, Key k) s')) = pinBuf s' @ [k]) \<and>
        (u \<noteq> [] \<longrightarrow> outcome_of (later, Rfid u) s' \<noteq> Ignored) \<and>
        (u \<noteq> [] \<and> \<not> rfid_ok u s' \<longrightarrow> failCount (fst (step (later, Rfid u) s')) = 1)) \<and>
     (now \<noteq> 4294937296 \<and> d < 30000 \<longrightarrow>
        isLockoutActive (now + d) s' \<and> step (now + d, Key k) s' = (s', []) \<and>
        step (now + d, Rfid u) s' = (s', []))"
proof -
  let ?s = "fst (step (now, ev) s)"
  have f: "failCount ?s = 0" and l: "lockoutUntilMs ?s = now + 30000"
    using step_failed [OF assms(1)] assms(2) by simp_all
  have wrap: "now = 4294937296 \<Longrightarrow> \<not> isLockoutActive later ?s" for later
    using l by (simp add: isLockoutActive_def)
  have six: "failCount (fst (step (later, Rfid u) ?s)) = 1"
    if "now = 4294937296" "u \<noteq> []" "\<not> rfid_ok u ?s"
  proof -
    have "outcome_of (later, Rfid u) ?s = Failed" using that wrap by simp
    from step_failed [OF this] f show ?thesis by (simp add: word_le_nat_alt)
  qed
  have act: "isLockoutActive (now + d) ?s" if "now \<noteq> 4294937296" "d < 30000"
    using that l wrap_sum [of now] within_window [of d]
    by (simp add: isLockoutActive_def window_difference)
  show ?thesis
    unfolding Let_def
    using f l wrap six act locked_step [of "now + d" ?s k u] unlocked_key [of later ?s k]
    by (auto simp: isLockoutActive_def)
qed

theorem fifth_failure_at_wrap_is_no_lockout_witness:
  "outcome_of (4294937296, Rfid [9]) (run demo_lock four_failures) = Failed \<and>
   failCount (run demo_lock four_failures) = 4 \<and>
   failCount wrapped_out = 0 \<and> lockoutUntilMs wrapped_out = 0 \<and>
   \<not> isLockoutActive 4294937297 wrapped_out \<and>
   outcome_of (4294937297, Key CHR ''1'') wrapped_out \<noteq> Ignored \<and>
   is_digit CHR ''1'' \<and> length (pinBuf wrapped_out) < 8 \<and>
   pinBuf (fst (step (4294937297, Key CHR ''1'') wrapped_out)) = ''1'' \<and>
   outcome_of (4294937297, Rfid [9]) wrapped_out \<noteq> Ignored \<and>
   \<not> rfid_ok [9] wrapped_out \<and>
   failCount (fst (step (4294937297, Rfid [9]) wrapped_out)) = 1 \<and>
   outcome_of (50, Rfid [9]) (run demo_lock four_failures) = Failed \<and>
   (9999 :: u32) < 30000 \<and>
   isLockoutActive (50 + 9999) locked_out \<and>
   step (50 + 9999, Key CHR ''1'') locked_out = (locked_out, []) \<and>
   step (50 + 9999, Rfid [9]) locked_out = (locked_out, [])"
proof -
  have h1: "outcome_of (4294937296, Rfid [9]) (run demo_lock four_failures) = Failed" by code_simp
  have h2: "failCount (run demo_lock four_failures) = 4" by code_simp
  have h3: "is_digit CHR ''1''" by code_simp
  have h4: "pinBuf wrapped_out = []" by code_simp
  have h5: "\<not> rfid_ok [9] wrapped_out" by code_simp
  have h6: "outcome_of (50, Rfid [9]) (run demo_lock four_failures) = Failed" by code_simp
  have lo: "locked_out = fst (step (50, Rfid [9]) (run demo_lock four_failures))"
    by (simp add: locked_out_def run_snoc)
  note t1 = fifth_failure_at_wrap_is_no_lockout
    [OF h1 h2, of 4294937297 "CHR ''1''" "[9]" 0, folded wrapped_out_def]
  note t2 = fifth_failure_at_wrap_is_no_lockout
    [OF h6 h2, of 0 "CHR ''1''" "[9]" 9999, folded lo]
  show ?thesis
    using h1 h2 h3 h4 h5 h6 t1 t2 by (simp add: Let_def)
qed

lemma tick_pin:
  "pinBuf (fst (tick now s)) =
     (if pinBuf s \<noteq> [] \<and> sint (now - lastInputMs s) > 6000 then [] else pinBuf s)"
  "failCount (fst (tick now s)) = failCount s"
  "lockoutUntilMs (fst (tick now s)) = lockoutUntilMs s"
  by (simp_all add: tick_def Let_def clearPinEntry_def kPinInputTimeoutMs_def)

lemma onKey_digit:
  "is_digit d \<Longrightarrow> \<not> isLockoutActive now s \<Longrightarrow> length (pinBuf s) < 8 \<Longrightarrow>
   fst (onKey now d s) = s\<lparr>pinBuf := pinBuf s @ [d], lastInputMs := now\<rparr>"
  by (auto simp: onKey_def is_digit_def kMaxPinLen_def)

lemma sint_5999: "sint ((t :: u32) + 5999 - t) = 5999"
  by simp

lemma sint_6001: "sint ((t :: u32) + 6001 - t) = 6001"
  by simp

text \<open>
  Claim C6. On every tick: if the PIN buffer is non-empty and more than 6000 ms have
  elapsed since the last accepted digit (the difference \<open>now - lastInputMs\<close> read as a
  signed 32-bit number, which is the wraparound-safe comparison), the buffer is cleared
  and the failure counter is unchanged; if 6000 ms or fewer have elapsed the buffer is
  unchanged. So two digits, a tick 5999 ms after the second and a third digit leave a
  buffer of three digits, and two digits and a tick 6001 ms after the second leave an
  empty buffer and the failure counter as it was.
\<close>

theorem pin_entry_timeout:
  "(pinBuf s \<noteq> [] \<and> sint (now - lastInputMs s) > 6000 \<longrightarrow>
      pinBuf (fst (tick now s)) = [] \<and> failCount (fst (tick now s)) = failCount s) \<and>
   (sint (now - lastInputMs s) \<le> 6000 \<longrightarrow>
      pinBuf (fst (tick now s)) = pinBuf s \<and> failCount (fst (tick now s)) = failCount s) \<and>
   (pinBuf s0 = [] \<and> is_digit d1 \<and> is_digit d2 \<and> is_digit d3 \<and>
    \<not> isLockoutActive t0 s0 \<and> \<not> isLockoutActive t s0 \<and> \<not> isLockoutActive (t + 5999) s0 \<longrightarrow>
      pinBuf (run s0 [(t0, Key d1), (t, Key d2), (t + 5999, Tick), (t + 5999, Key d3)]) =
        [d1, d2, d3] \<and>
      pinBuf (run s0 [(t0, Key d1), (t, Key d2), (t + 6001, Tick)]) = [] \<and>
      failCount (run s0 [(t0, Key d1), (t, Key d2), (t + 6001, Tick)]) = failCount s0)"
proof (intro conjI impI)
  assume "pinBuf s \<noteq> [] \<and> sint (now - lastInputMs s) > 6000"
  then show "pinBuf (fst (tick now s)) = []" by (simp add: tick_pin)
next
  assume "sint (now - lastInputMs s) \<le> 6000"
  then show "pinBuf (fst (tick now s)) = pinBuf s" by (simp add: tick_pin)
next
  assume a: "pinBuf s0 = [] \<and> is_digit d1 \<and> is_digit d2 \<and> is_digit d3 \<and>
    \<not> isLockoutActive t0 s0 \<and> \<not> isLockoutActive t s0 \<and> \<not> isLockoutActive (t + 5999) s0"
  let ?s1 = "s0\<lparr>pinBuf := [d1], lastInputMs := t0\<rparr>"
  let ?s2 = "s0\<lparr>pinBuf := [d1, d2], lastInputMs := t\<rparr>"
  have k1: "fst (onKey t0 d1 s0) = ?s1" using a onKey_digit [of d1 t0 s0] by simp
  have "\<not> isLockoutActive t ?s1" using a by (simp add: isLockoutActive_def)
  then have k2: "fst (onKey t d2 ?s1) = ?s2" using a onKey_digit [of d2 t ?s1] by simp
  have p2: "pinBuf ?s2 = [d1, d2]" "lastInputMs ?s2 = t" "lockoutUntilMs ?s2 = lockoutUntilMs s0"
    "failCount ?s2 = failCount s0" by simp_all
  let ?s3 = "fst (tick (t + 5999) ?s2)"
  have p3: "pinBuf ?s3 = [d1, d2]" "lockoutUntilMs ?s3 = lockoutUntilMs s0"
    unfolding tick_pin p2 sint_5999 by simp_all
  then have "\<not> isLockoutActive (t + 5999) ?s3" using a by (simp add: isLockoutActive_def)
  then have "pinBuf (fst (onKey (t + 5999) d3 ?s3)) = [d1, d2, d3]"
    using a onKey_digit [of d3 "t + 5999" ?s3] p3 by simp
  then show "pinBuf (run s0 [(t0, Key d1), (t, Key d2), (t + 5999, Tick), (t + 5999, Key d3)]) =
        [d1, d2, d3]"
    by (simp add: k1 k2)
  show "pinBuf (run s0 [(t0, Key d1), (t, Key d2), (t + 6001, Tick)]) = []"
    unfolding run.simps step.simps k1 k2 tick_pin p2 sint_6001 by simp
  show "failCount (run s0 [(t0, Key d1), (t, Key d2), (t + 6001, Tick)]) = failCount s0"
    unfolding run.simps step.simps k1 k2 tick_pin p2 by simp
qed (simp_all add: tick_pin)

theorem pin_entry_timeout_witness:
  "pinBuf (run demo_lock [(10, Key CHR ''1''), (20, Key CHR ''2'')]) \<noteq> [] \<and>
   sint ((6021 :: u32) - lastInputMs (run demo_lock [(10, Key CHR ''1''), (20, Key CHR ''2'')])) > 6000 \<and>
   pinBuf (fst (tick 6021 (run demo_lock [(10, Key CHR ''1''), (20, Key CHR ''2'')]))) = [] \<and>
   sint ((6020 :: u32) - lastInputMs (run demo_lock [(10, Key CHR ''1''), (20, Key CHR ''2'')])) \<le> 6000 \<and>
   pinBuf (fst (tick 6020 (run demo_lock [(10, Key CHR ''1''), (20, Key CHR ''2'')]))) = ''12'' \<and>
   pinBuf demo_lock = [] \<and> is_digit CHR ''1'' \<and> is_digit CHR ''2'' \<and> is_digit CHR ''3'' \<and>
   \<not> isLockoutActive 10 demo_lock \<and> \<not> isLockoutActive 20 demo_lock \<and>
   \<not> isLockoutActive (20 + 5999) demo_lock \<and>
   pinBuf (run demo_lock [(10, Key CHR ''1''), (20, Key CHR ''2''), (20 + 5999, Tick),
                          (20 + 5999, Key CHR ''3'')]) = ''123'' \<and>
   pinBuf (run demo_lock [(10, Key CHR ''1''), (20, Key CHR ''2''), (20 + 6001, Tick)]) = []"
proof -
  let ?s = "run demo_lock [(10, Key CHR ''1''), (20, Key CHR ''2'')]"
  have h1: "pinBuf ?s = ''12''" by code_simp
  have h2: "lastInputMs ?s = 20" by code_simp
  have h3: "pinBuf demo_lock = []" by code_simp
  have h4: "is_digit CHR ''1''" "is_digit CHR ''2''" "is_digit CHR ''3''" by code_simp+
  have h5: "\<not> isLockoutActive 10 demo_lock" "\<not> isLockoutActive 20 demo_lock"
    "\<not> isLockoutActive (20 + 5999) demo_lock" by code_simp+
  note t1 = pin_entry_timeout [of ?s 6021 demo_lock "CHR ''1''" "CHR ''2''" "CHR ''3''" 10 20]
  note t2 = pin_entry_timeout [of ?s 6020 demo_lock "CHR ''1''" "CHR ''2''" "CHR ''3''" 10 20]
  show ?thesis using h1 h2 h3 h4 h5 t1 t2 by simp
qed

section \<open>Proofs: credential store\<close>

lemma validatePin_loop_none:
  "(\<And>j. j < 10 \<Longrightarrow> p_valid (ps ! j) = 0) \<Longrightarrow> validatePin_loop ps b l i = None"
proof (induction ps b l i rule: validatePin_loop.induct)
  case (1 ps b l i)
  show ?case
  proof (cases "i < 10")
    case True
    with 1 show ?thesis by (subst validatePin_loop.simps) (simp add: Let_def)
  next
    case False
    then show ?thesis by (subst validatePin_loop.simps) simp
  qed
qed

lemma validateRfid_loop_none:
  "(\<And>j. j < 10 \<Longrightarrow> r_valid (rfids (data st) ! j) = 0) \<Longrightarrow> validateRfid_loop st u i = None"
proof (induction st u i rule: validateRfid_loop.induct)
  case (1 st u i)
  show ?case
  proof (cases "i < 10")
    case True
    with 1 show ?thesis by (subst validateRfid_loop.simps) (simp add: Let_def)
  next
    case False
    then show ?thesis by (subst validateRfid_loop.simps) simp
  qed
qed

lemma cleared_saved:
  "snd (save (clearAll st)) =
     st\<lparr>data := (data (clearAll st))\<lparr>crc32_f := crc32 (image_bytes (data (clearAll st)))\<rparr>,
        eeprom := (eeprom st)\<lparr>contents :=
           (data (clearAll st))\<lparr>crc32_f := crc32 (image_bytes (data (clearAll st)))\<rparr>\<rparr>\<rparr>"
  by (simp add: save_def clearAll_def Let_def)

lemma cleared_fields:
  "magic (data (clearAll st)) = kMagic" "sversion (data (clearAll st)) = kVersion"
  "crc32_f (data (clearAll st)) = 0"
  "pins (data (clearAll st)) = replicate 10 zero_PinSlot"
  "rfids (data (clearAll st)) = replicate 10 zero_RfidSlot"
  "master (data (clearAll st)) = zero_PinSlot"
  by (simp_all add: clearAll_def)

lemma load_eq:
  "load st =
     (if image_valid (contents (eeprom st)) then (True, st\<lparr>data := contents (eeprom st)\<rparr>)
      else (False, snd (save (clearAll (st\<lparr>data := contents (eeprom st)\<rparr>)))))"
  by (auto simp: load_def image_valid_def Let_def)

lemma reset_no_pin:
  "fst (validatePin p (snd (save (clearAll st)))) = False"
  unfolding cleared_saved
  by (simp add: validatePin_def cleared_fields zero_PinSlot_def validatePin_loop_none
      split: option.splits)

lemma reset_no_rfid:
  "fst (validateRfid u (snd (save (clearAll st)))) = False"
  unfolding cleared_saved
  by (simp add: validateRfid_def cleared_fields zero_RfidSlot_def validateRfid_loop_none)

lemma reset_reloads: "fst (load (snd (save (clearAll st))))"
proof -
  have z: "(data (clearAll st))\<lparr>crc32_f := 0\<rparr> = data (clearAll st)"
    by (simp add: clearAll_def)
  show ?thesis
    unfolding cleared_saved load_eq by (simp add: image_valid_def cleared_fields z)
qed

text \<open>
  Claim C2. \<open>load\<close> reads the image from the EEPROM and checks its magic, its version
  and its CRC32, recomputed over the image with the \<open>crc32\<close> field zeroed and compared
  with the stored value (\<open>image_valid\<close>). If all three match, \<open>load\<close> returns true and
  the store in memory is the loaded image, unchanged. If any of them does not, \<open>load\<close>
  returns false, the store in memory is the default image (magic and version set, all
  10 PIN slots and all 10 RFID slots invalid, the master slot invalid, so that no PIN and
  no UID validates), and that image, with its own CRC32, has been written to the EEPROM:
  the EEPROM holds what memory holds, and it is an image that \<open>load\<close> accepts.
  (\<open>load\<close> ignores what \<open>EEPROM.commit()\<close> returns.)
\<close>

theorem load_integrity_check:
  "(image_valid (contents (eeprom st)) \<longrightarrow>
      load st = (True, st\<lparr>data := contents (eeprom st)\<rparr>)) \<and>
   (\<not> image_valid (contents (eeprom st)) \<longrightarrow>
      (let (ok, st') = load st in
         \<not> ok \<and>
         list_all (\<lambda>p. p_valid p = 0) (pins (data st')) \<and> length (pins (data st')) = 10 \<and>
         list_all (\<lambda>r. r_valid r = 0) (rfids (data st')) \<and> length (rfids (data st')) = 10 \<and>
         p_valid (master (data st')) = 0 \<and>
         magic (data st') = kMagic \<and> sversion (data st') = kVersion \<and>
         (\<forall>p. \<not> fst (validatePin p st')) \<and> (\<forall>u. \<not> fst (validateRfid u st')) \<and>
         contents (eeprom st') = data st' \<and> image_valid (contents (eeprom st')) \<and>
         fst (load st')))"
proof (intro conjI impI)
  assume "image_valid (contents (eeprom st))"
  then show "load st = (True, st\<lparr>data := contents (eeprom st)\<rparr>)" by (simp add: load_eq)
next
  assume inv: "\<not> image_valid (contents (eeprom st))"
  let ?st1 = "st\<lparr>data := contents (eeprom st)\<rparr>"
  let ?st' = "snd (save (clearAll ?st1))"
  have l: "load st = (False, ?st')" using inv by (simp add: load_eq)
  have v: "image_valid (contents (eeprom ?st'))"
    using reset_reloads [of ?st1] unfolding load_eq [of ?st'] by (simp split: if_splits)
  have f: "list_all (\<lambda>p. p_valid p = 0) (pins (data ?st'))" "length (pins (data ?st')) = 10"
    "list_all (\<lambda>r. r_valid r = 0) (rfids (data ?st'))" "length (rfids (data ?st')) = 10"
    "p_valid (master (data ?st')) = 0" "magic (data ?st') = kMagic" "sversion (data ?st') = kVersion"
    "contents (eeprom ?st') = data ?st'"
    unfolding cleared_saved
    by (simp_all add: cleared_fields zero_PinSlot_def zero_RfidSlot_def list_all_iff)
  show "let (ok, st') = load st in
         \<not> ok \<and>
         list_all (\<lambda>p. p_valid p = 0) (pins (data st')) \<and> length (pins (data st')) = 10 \<and>
         list_all (\<lambda>r. r_valid r = 0) (rfids (data st')) \<and> length (rfids (data st')) = 10 \<and>
         p_valid (master (data st')) = 0 \<and>
         magic (data st') = kMagic \<and> sversion (data st') = kVersion \<and>
         (\<forall>p. \<not> fst (validatePin p st')) \<and> (\<forall>u. \<not> fst (validateRfid u st')) \<and>
         contents (eeprom st') = data st' \<and> image_valid (contents (eeprom st')) \<and>
         fst (load st')"
    unfolding l using f v reset_no_pin [of _ ?st1] reset_no_rfid [of _ ?st1] reset_reloads [of ?st1]
    by simp
qed

lemma demo_lock_eq:
  "demo_lock =
     \<lparr>store = Some demo_store, display = True, buzzer = True, uart = True, lockState = LOCKED,
      unlockUntilMs = 0, pinBuf = [], lastInputMs = 0, failCount = 0, lockoutUntilMs = 0,
      lastMethod = [], lastSuccess = False, lastActionAtMs = 0\<rparr>"
  by (simp add: demo_lock_def begin_lock_def clearPinEntry_def Let_def LockLogic_new_def)

lemma demo_lock_state:
  "sendState now demo_lock =
      [SendState \<lparr>st_lock = ''LOCKED'', st_method = [], st_success = False, st_atMs = 0,
                  st_lockoutRemainMs = None\<rparr>]"
  by (simp add: sendState_def demo_lock_eq isLockoutActive_def)

theorem load_integrity_check_witness:
  "image_valid (contents (eeprom (snd (save demo_store)))) \<and>
   load (snd (save demo_store)) = (True, snd (save demo_store)) \<and>
   \<not> image_valid (contents (eeprom erased_store)) \<and>
   (let (ok, st') = load erased_store in
      \<not> ok \<and> list_all (\<lambda>p. p_valid p = 0) (pins (data st')) \<and>
      list_all (\<lambda>r. r_valid r = 0) (rfids (data st')) \<and> p_valid (master (data st')) = 0 \<and>
      contents (eeprom st') = data st' \<and> fst (load st'))"
proof -
  have v: "image_valid (contents (eeprom (snd (save demo_store))))"
    by (simp add: image_valid_def save_def demo_store_def demo_image_def Let_def)
  have e: "(snd (save demo_store))\<lparr>data := contents (eeprom (snd (save demo_store)))\<rparr> =
      snd (save demo_store)"
    by (simp add: save_def Let_def)
  have i: "\<not> image_valid (contents (eeprom erased_store))"
    by (simp add: image_valid_def erased_store_def erased_image_def kMagic_def)
  show ?thesis
    using load_integrity_check [of "snd (save demo_store)"] load_integrity_check [of erased_store]
      v e i
    by (simp split: prod.splits)
qed

section \<open>Proofs: administrative commands\<close>

lemma store_op_frame: "uart (snd (store_op f s)) = uart s"
  by (simp add: store_op_def split: option.splits prod.splits)

lemma store_result_shape: "result_shape s (store_result (store_op f s))"
  by (simp add: result_shape_def result_ok_def store_result_def store_op_frame error_codes_def)

lemma bad_shape:
  "result_shape s (False, Some ''bad_slot'', s)" "result_shape s (False, Some ''bad_pin'', s)"
  "result_shape s (False, Some ''bad_uid'', s)" "result_shape s (False, Some ''unknown_cmd'', s)"
  by (simp_all add: result_shape_def result_ok_def error_codes_def)

lemma run_command_shape: "result_shape s (run_command cmd args s)"
  by (simp add: run_command_def cmd_add_pin_def cmd_delete_pin_def cmd_add_rfid_def
      cmd_delete_rfid_def cmd_set_master_def Let_def store_result_shape bad_shape)

text \<open>
  Claim C5, as the specification states it, fails for a command without a \<open>cmdId\<close>: the
  line protocol passes the empty string, and the handler returns at once. Nothing is
  emitted, neither a command result nor a state.
\<close>

theorem empty_cmdId_counterexample:
  "uart demo_lock \<and>
   handleLine demo_parser no_id_line =
     Some (''lock.delete_pin'', [], \<lparr>arg_slot = Some 0, arg_pin = None, arg_uidHex = None\<rparr>) \<and>
   dispatch_line demo_parser 100 no_id_line demo_lock = (demo_lock, [])"
  by (simp add: demo_lock_eq handleLine_def demo_parser_def
      no_id_line_def overlong_tail_def dispatch_line_def onCommand_def)

text \<open>
  Claim C5, amended. For every administrative command dispatched by the line protocol
  with a non-empty \<open>cmdId\<close>, the handler emits exactly two messages: a command result
  carrying that \<open>cmdId\<close> and success, or failure with one of the error codes, and then a
  state snapshot of the state the command left. This holds for every command name and
  all arguments, commands that fail validation included. A command whose \<open>cmdId\<close> is
  empty (the default when the field is absent) is dropped: nothing is emitted and the
  state is unchanged.
\<close>

theorem command_result_then_state:
  "uart s \<Longrightarrow>
   (cmdId \<noteq> [] \<longrightarrow>
      (let (ok, err, s1) = run_command cmd args s;
           (s2, out) = onCommand now (Some cmd) (Some cmdId) args s
       in s2 = s1 \<and> length out = 2 \<and>
          out ! 0 = SendCmdResult cmdId ok (if ok then None else err) \<and> is_state (out ! 1) \<and>
          out = sendCmdResult cmdId ok err @ sendState now s1 \<and> result_ok ok err)) \<and>
   (cmdId = [] \<longrightarrow> onCommand now (Some cmd) (Some cmdId) args s = (s, [])) \<and>
   (handleLine dj line = Some (cmd, cmdId, args) \<longrightarrow>
      dispatch_line dj now line s = onCommand now (Some cmd) (Some cmdId) args s)"
proof -
  assume u: "uart s"
  obtain ok err s1 where r: "run_command cmd args s = (ok, err, s1)"
    by (cases "run_command cmd args s")
  with run_command_shape [of s cmd args] u have u1: "uart s1" and sh: "result_ok ok err"
    by (simp_all add: result_shape_def result_ok_def)
  have ne: "\<not> ok \<Longrightarrow> \<exists>e. err = Some e \<and> e \<noteq> []"
    using sh by (auto simp: result_ok_def error_codes_def split: option.splits)
  show ?thesis
    using r u1 sh ne
    by (auto simp: onCommand_def sendCmdResult_def sendState_def dispatch_line_def
        split: option.splits)
qed

theorem command_result_then_state_witness:
  "uart demo_lock \<and> ''x1'' \<noteq> [] \<and>
   handleLine demo_parser bad_slot_line =
     Some (''lock.add_pin'', ''x1'', \<lparr>arg_slot = Some 11, arg_pin = Some ''1234'', arg_uidHex = None\<rparr>) \<and>
   dispatch_line demo_parser 100 bad_slot_line demo_lock =
     (demo_lock,
      [SendCmdResult ''x1'' False (Some ''bad_slot''),
       SendState \<lparr>st_lock = ''LOCKED'', st_method = [], st_success = False, st_atMs = 0,
                  st_lockoutRemainMs = None\<rparr>]) \<and>
   onCommand 100 (Some ''lock.delete_pin'') (Some [])
      \<lparr>arg_slot = Some 0, arg_pin = None, arg_uidHex = None\<rparr> demo_lock = (demo_lock, [])"
proof -
  let ?a = "\<lparr>arg_slot = Some 11, arg_pin = Some ''1234'', arg_uidHex = None\<rparr>"
  have u: "uart demo_lock" by (simp add: demo_lock_eq)
  have h: "handleLine demo_parser bad_slot_line = Some (''lock.add_pin'', ''x1'', ?a)"
    by (simp add: handleLine_def demo_parser_def bad_slot_line_def no_id_line_def overlong_tail_def)
  have r: "run_command ''lock.add_pin'' ?a demo_lock = (False, Some ''bad_slot'', demo_lock)"
    by (simp add: run_command_def cmd_add_pin_def get_slot_def)
  note st = demo_lock_state [of 100]
  note t1 = command_result_then_state [OF u, of "''x1''" "''lock.add_pin''" ?a 100 demo_parser bad_slot_line]
  note t2 = command_result_then_state [OF u, of "[]" "''lock.delete_pin''"
      "\<lparr>arg_slot = Some 0, arg_pin = None, arg_uidHex = None\<rparr>" 100 demo_parser no_id_line]
  show ?thesis
    using u h r st t1 t2 by (simp add: sendCmdResult_def split: prod.splits)
qed

lemma copy_digits_none: "\<not> list_all is_digit p \<Longrightarrow> copy_digits p = None"
  by (induction p) auto

lemma normalizePin_rejects:
  "length p > 8 \<or> \<not> list_all is_digit p \<Longrightarrow> normalizePin p = None"
  by (auto simp: normalizePin_def kMaxPinLen_def copy_digits_none Let_def)

text \<open>
  Claim C4 says that \<open>lock.add_pin\<close> with a slot in 0..9 and a non-empty PIN that is not
  1 to 8 decimal digits is rejected before any mutation with the error code \<open>bad_pin\<close>.
  What the handler does with such a command: the store and the whole state are left
  unchanged, and the command result carries \<open>ok = false\<close> with the error code
  \<open>store_fail\<close>, followed by the state snapshot.
\<close>

theorem add_pin_malformed_reports_store_fail:
  assumes "store s = Some st" "uart s" "cmdId \<noteq> []" "0 \<le> slot" "slot \<le> 9" "p \<noteq> []"
    "length p > 8 \<or> \<not> list_all is_digit p"
  shows "onCommand now (Some ''lock.add_pin'') (Some cmdId)
           \<lparr>arg_slot = Some slot, arg_pin = Some p, arg_uidHex = h\<rparr> s =
         (s, SendCmdResult cmdId False (Some ''store_fail'') # sendState now s)"
proof -
  have same: "s\<lparr>store := Some st\<rparr> = s" using assms(1) by simp
  show ?thesis
    using assms normalizePin_rejects [OF assms(7)]
    by (simp add: onCommand_def run_command_def cmd_add_pin_def get_slot_def get_pin_def
        store_op_def setPin_def isValidSlot_def store_result_def sendCmdResult_def same)
qed

theorem add_pin_malformed_reports_store_fail_witness:
  "store demo_lock = Some demo_store \<and> uart demo_lock \<and> ''x1'' \<noteq> [] \<and> (0 :: int) \<le> 0 \<and>
   (0 :: int) \<le> 9 \<and> ''12a4'' \<noteq> [] \<and> \<not> list_all is_digit ''12a4'' \<and>
   onCommand 100 (Some ''lock.add_pin'') (Some ''x1'')
      \<lparr>arg_slot = Some 0, arg_pin = Some ''12a4'', arg_uidHex = None\<rparr> demo_lock =
     (demo_lock,
      [SendCmdResult ''x1'' False (Some ''store_fail''),
       SendState \<lparr>st_lock = ''LOCKED'', st_method = [], st_success = False, st_atMs = 0,
                  st_lockoutRemainMs = None\<rparr>])"
proof -
  have s: "store demo_lock = Some demo_store" and u: "uart demo_lock"
    by (simp_all add: demo_lock_eq)
  have d: "\<not> list_all is_digit ''12a4''" by (simp add: is_digit_def)
  then have d': "length ''12a4'' > 8 \<or> \<not> list_all is_digit ''12a4''" by simp
  note st = demo_lock_state [of 100]
  have "onCommand 100 (Some ''lock.add_pin'') (Some ''x1'')
      \<lparr>arg_slot = Some 0, arg_pin = Some ''12a4'', arg_uidHex = None\<rparr> demo_lock =
     (demo_lock, SendCmdResult ''x1'' False (Some ''store_fail'') # sendState 100 demo_lock)"
    by (rule add_pin_malformed_reports_store_fail [OF s u _ _ _ _ d']) simp_all
  then show ?thesis using s u d st by simp
qed

section \<open>Proofs: line protocol\<close>

lemma tick_fill:
  "list_all plain cs \<Longrightarrow> length (lineBuf u) + length cs \<le> kMaxLine - 1 \<Longrightarrow>
   UartProtocol_tick u (cs @ rest) = UartProtocol_tick (u\<lparr>lineBuf := lineBuf u @ cs\<rparr>) rest"
proof (induction cs arbitrary: u)
  case Nil
  then show ?case by simp
next
  case (Cons c cs)
  then show ?case by (simp add: plain_def kMaxLine_def)
qed

lemma tick_overflow:
  "plain c \<Longrightarrow> length (lineBuf u) = kMaxLine - 1 \<Longrightarrow>
   UartProtocol_tick u (c # rest) = UartProtocol_tick (u\<lparr>lineBuf := []\<rparr>) rest"
  by (simp add: plain_def kMaxLine_def)

lemma tick_newline:
  "lineBuf u \<noteq> [] \<Longrightarrow>
   UartProtocol_tick u [CHR 0x0A] = (u\<lparr>lineBuf := []\<rparr>, [c_str (lineBuf u)])"
  by simp

text \<open>
  Claim C9 says that no part of a line longer than the line buffer is dispatched.
  What \<open>tick\<close> does with a line of 511 characters, one more character and a non-empty
  tail of at most 511 characters before the newline: the first 511 characters and the
  one that overflows are dropped, the tail is buffered as if it began a line, and at the
  newline the tail is handed to \<open>handleLine\<close>.
\<close>

theorem overlong_line_tail_is_dispatched:
  assumes "list_all plain pre" "length pre = kMaxLine - 1" "plain c" "list_all plain tail"
    "tail \<noteq> []" "length tail \<le> kMaxLine - 1"
  shows "UartProtocol_tick \<lparr>lineBuf = []\<rparr> (pre @ [c] @ tail @ [CHR 0x0A]) =
    (\<lparr>lineBuf = []\<rparr>, [c_str tail])"
proof -
  have "UartProtocol_tick \<lparr>lineBuf = []\<rparr> (pre @ [c] @ tail @ [CHR 0x0A])
      = UartProtocol_tick \<lparr>lineBuf = pre\<rparr> (c # tail @ [CHR 0x0A])"
    using tick_fill [of pre "\<lparr>lineBuf = []\<rparr>" "[c] @ tail @ [CHR 0x0A]"] assms by simp
  also have "\<dots> = UartProtocol_tick \<lparr>lineBuf = []\<rparr> (tail @ [CHR 0x0A])"
    using tick_overflow [of c "\<lparr>lineBuf = pre\<rparr>"] assms by simp
  also have "\<dots> = UartProtocol_tick \<lparr>lineBuf = tail\<rparr> [CHR 0x0A]"
    using tick_fill [of tail "\<lparr>lineBuf = []\<rparr>" "[CHR 0x0A]"] assms by simp
  also have "\<dots> = (\<lparr>lineBuf = []\<rparr>, [c_str tail])"
    using tick_newline [of "\<lparr>lineBuf = tail\<rparr>"] assms by simp
  finally show ?thesis .
qed

theorem overlong_line_tail_is_dispatched_witness:
  "list_all plain (replicate 511 CHR ''x'') \<and> length (replicate 511 CHR ''x'') = kMaxLine - 1 \<and>
   plain CHR ''y'' \<and> list_all plain overlong_tail \<and> overlong_tail \<noteq> [] \<and>
   length overlong_tail \<le> kMaxLine - 1 \<and>
   UartProtocol_tick \<lparr>lineBuf = []\<rparr>
      (replicate 511 CHR ''x'' @ [CHR ''y''] @ overlong_tail @ [CHR 0x0A]) =
     (\<lparr>lineBuf = []\<rparr>, [overlong_tail]) \<and>
   handleLine demo_parser overlong_tail =
     Some (''lock.set_master'', ''7'', \<lparr>arg_slot = None, arg_pin = Some [], arg_uidHex = None\<rparr>)"
proof -
  have 1: "list_all plain overlong_tail" "overlong_tail \<noteq> []"
    "length overlong_tail \<le> kMaxLine - 1" "c_str overlong_tail = overlong_tail"
    by (simp_all add: overlong_tail_def plain_def kMaxLine_def c_str_def)
  have 2: "list_all plain (replicate 511 CHR ''x'')" "plain CHR ''y''"
    "length (replicate 511 CHR ''x'') = kMaxLine - 1"
    by (simp_all add: list_all_iff plain_def kMaxLine_def)
  have 3: "handleLine demo_parser overlong_tail =
     Some (''lock.set_master'', ''7'', \<lparr>arg_slot = None, arg_pin = Some [], arg_uidHex = None\<rparr>)"
    by (simp add: handleLine_def demo_parser_def)
  show ?thesis
    using overlong_line_tail_is_dispatched [OF 2(1) 2(3) 2(2) 1(1,2,3)] 1 2 3 by simp
qed

end
